theory Spec2Isabelle
  imports Complex_Main
begin

section \<open>The store: tables of the habit tracker\<close>

text \<open>
  The program keeps its state in SQL tables (\<^verbatim>\<open>init_db\<close> in \<^verbatim>\<open>database.py\<close> and
  \<^verbatim>\<open>habit_tracker/database.py\<close>). A table is a list of rows, a row a record of the
  columns that the settlement and notification code reads or writes. Columns that only
  feed message texts (names, units, icons, comments, creation times) are left out, and
  so is the \<^verbatim>\<open>ORDER BY\<close> of \<^verbatim>\<open>get_user_habits\<close>, which sorts by those columns: rows are
  visited in table order.

  SQL \<^verbatim>\<open>INTEGER\<close> columns are \<open>int\<close>, nullable columns are \<open>option\<close>. A Python float
  and the content of an SQL \<^verbatim>\<open>REAL\<close> column is the rational number it denotes; every
  float operation of the code rounds its exact result to the nearest float, a tie to the
  even one (\<open>binary64\<close> for Python floats and for the 8-byte \<^verbatim>\<open>REAL\<close> of SQLite,
  \<open>binary32\<close> for the 4-byte \<^verbatim>\<open>REAL\<close> of PostgreSQL, see below). Comparisons of floats are
  exact. Infinities and NaN are not values of the model: a result beyond the largest
  finite float is rounded as if the exponents had no upper end. The one addition that is
  left to SQL, \<^verbatim>\<open>total_points + 1\<close> of \<^verbatim>\<open>update_marathon_points\<close>, is exact: point totals
  are whole numbers, which both column types hold exactly far beyond any reachable count.
  Timestamps are seconds on one clock, dates are day numbers.
\<close>

datatype habit_type = Boolean | Numeric

record habit =
  h_id :: int
  h_user_id :: int
  h_type :: habit_type
  daily_goal :: rat
  streak :: int
  max_streak :: int
  is_active :: int
  marathon_id :: "int option"

record habit_log =
  l_id :: int
  l_habit_id :: int
  l_user_id :: int
  log_date :: int
  l_value :: rat
  l_completed :: int

record pending_notification =
  p_user_id :: int
  p_habit_id :: int
  message_id :: "int option"
  chat_id :: "int option"
  sent_at :: int
  expires_at :: int
  responded :: int

record marathon_participant =
  mp_marathon_id :: int
  mp_user_id :: int
  total_points :: rat

text \<open>
  \<open>habit_logs_seq\<close> is the next value of the \<^verbatim>\<open>AUTOINCREMENT\<close>/\<^verbatim>\<open>SERIAL\<close> key of
  \<^verbatim>\<open>habit_logs\<close>. \<open>log_writes\<close> is a ghost counter, not a column: the number of
  \<^verbatim>\<open>INSERT\<close> and \<^verbatim>\<open>UPDATE\<close> statements executed on \<^verbatim>\<open>habit_logs\<close> so far.
\<close>

record database =
  users :: "int list"
  habits :: "habit list"
  habit_logs :: "habit_log list"
  habit_logs_seq :: int
  pending_notifications :: "pending_notification list"
  marathon_participants :: "marathon_participant list"
  log_writes :: nat

text \<open>
  Python exceptions the modelled code can raise: \<open>TypeError\<close> from \<^verbatim>\<open>dict(None)\<close> or from
  unpacking \<^verbatim>\<open>None\<close> when a \<^verbatim>\<open>SELECT\<close> finds no row, \<open>ValueError\<close> from \<^verbatim>\<open>float(text)\<close>.
\<close>

datatype error = TypeError | ValueError

subsection \<open>Binary floating point\<close>

text \<open>
  \<open>pow2 e\<close> is the power of two with the integer exponent \<open>e\<close>, and \<open>expo x\<close> the
  exponent of a non-zero \<open>x\<close>: \<open>pow2 (expo x) \<le> \<bar>x\<bar> < pow2 (expo x + 1)\<close>.
  \<open>round_half_even\<close> is the nearest integer, a tie going to the even one, and \<open>grid q x\<close>
  the multiple of \<open>q\<close> nearest to \<open>x\<close> under that rule. \<open>binary p qmin x\<close> rounds \<open>x\<close> to
  the format with \<open>p\<close> significant bits whose smallest positive number is \<open>pow2 qmin\<close>:
  around \<open>x\<close> the floats are \<open>pow2 (expo x - p + 1)\<close> apart, and \<open>pow2 qmin\<close> apart in the
  subnormal range.
\<close>

fun ilog2 :: "nat \<Rightarrow> nat" where
  "ilog2 n = (if n < 2 then 0 else Suc (ilog2 (n div 2)))"

definition pow2 :: "int \<Rightarrow> rat" where
  "pow2 e = (if 0 \<le> e then 2 ^ nat e else 1 / 2 ^ nat (- e))"

definition expo :: "rat \<Rightarrow> int" where
  "expo x =
     (let a = \<bar>x\<bar>
      in if 1 \<le> a then int (ilog2 (nat \<lfloor>a\<rfloor>))
         else - int (ilog2 (nat (\<lceil>1 / a\<rceil> - 1))) - 1)"

definition round_half_even :: "rat \<Rightarrow> int" where
  "round_half_even x =
     (let f = \<lfloor>x\<rfloor>; r = x - of_int f
      in if r < 1 / 2 then f else if 1 / 2 < r then f + 1 else if even f then f else f + 1)"

definition grid :: "rat \<Rightarrow> rat \<Rightarrow> rat" where
  "grid q x = of_int (round_half_even (x / q)) * q"

definition binary :: "nat \<Rightarrow> int \<Rightarrow> rat \<Rightarrow> rat" where
  "binary p qmin x =
     (if x = 0 then 0 else grid (pow2 (max (expo x - int p + 1) qmin)) x)"

text \<open>
  A Python float is an IEEE 754 double, and so is a \<^verbatim>\<open>REAL\<close> of SQLite. The \<^verbatim>\<open>REAL\<close> of
  PostgreSQL is single precision: the driver narrows a Python float that it binds to
  such a column, and widens (exactly) what it reads from one.
\<close>

definition binary64 :: "rat \<Rightarrow> rat" where
  "binary64 = binary 53 (- 1074)"

definition binary32 :: "rat \<Rightarrow> rat" where
  "binary32 = binary 24 (- 149)"

subsection \<open>Habit queries\<close>

definition get_habit :: "int \<Rightarrow> database \<Rightarrow> habit option" where
  "get_habit habit_id db = find (\<lambda>h. h_id h = habit_id) (habits db)"

definition get_user_habits :: "int \<Rightarrow> database \<Rightarrow> habit list" where
  "get_user_habits user_id db =
     filter (\<lambda>h. h_user_id h = user_id \<and> is_active h = 1) (habits db)"

definition get_daily_log :: "int \<Rightarrow> int \<Rightarrow> database \<Rightarrow> habit_log option" where
  "get_daily_log habit_id d db =
     find (\<lambda>r. l_habit_id r = habit_id \<and> log_date r = d) (habit_logs db)"

text \<open>
  \<^verbatim>\<open>get_daily_logs_batch\<close> builds the dictionary \<^verbatim>\<open>{row['habit_id']: dict(row)}\<close>: of two
  rows with one habit id the later one stays.
\<close>

definition get_daily_logs_batch :: "int list \<Rightarrow> int \<Rightarrow> database \<Rightarrow> (int \<Rightarrow> habit_log option)" where
  "get_daily_logs_batch habit_ids d db =
     (if habit_ids = [] then Map.empty
      else map_of (rev (map (\<lambda>r. (l_habit_id r, r))
             (filter (\<lambda>r. l_habit_id r \<in> set habit_ids \<and> log_date r = d) (habit_logs db)))))"

subsection \<open>Streaks\<close>

text \<open>
  \<^verbatim>\<open>update_streak(habit_id, completed)\<close> reads \<^verbatim>\<open>streak, max_streak\<close> of the habit, writes
  the new pair and returns \<^verbatim>\<open>(new_streak, completed)\<close>. Unpacking the missing row of an
  unknown habit raises before anything is written.
\<close>

definition update_streak :: "int \<Rightarrow> bool \<Rightarrow> database \<Rightarrow> error + (database \<times> int \<times> bool)" where
  "update_streak habit_id completed db =
     (case find (\<lambda>h. h_id h = habit_id) (habits db) of
        None \<Rightarrow> Inl TypeError
      | Some row \<Rightarrow>
          (let current_streak = streak row;
               new_streak = (if completed then current_streak + 1 else 0);
               new_max = (if completed then max (max_streak row) new_streak else max_streak row)
           in Inr (db\<lparr>habits :=
                        map (\<lambda>h. if h_id h = habit_id
                                  then h\<lparr>streak := new_streak, max_streak := new_max\<rparr> else h)
                            (habits db)\<rparr>,
                   new_streak, completed)))"

subsection \<open>Daily logs\<close>

text \<open>
  \<^verbatim>\<open>log_habit(habit_id, user_id, value, log_date)\<close>, the same text in both database
  modules. \<^verbatim>\<open>dict(habit)\<close> raises for an unknown habit, before any write. For an existing
  row of the day Python adds the stored value and the given one, a float addition;
  otherwise the new value is the given one. The completed flag is computed from that
  Python value. Then the row is updated through its \<^verbatim>\<open>id\<close>, or a row is inserted; the
  \<^verbatim>\<open>REAL\<close> column keeps the value as \<open>real_column\<close> says: as it is in SQLite, narrowed to
  single precision in PostgreSQL. The result is the returned dictionary, which holds the
  Python value. \<open>value\<close> is the value of a Python number (the handlers pass a float or a
  small integer).
\<close>

record log_result =
  r_habit :: habit
  r_new_value :: rat
  r_daily_goal :: rat
  r_completed :: int

definition log_habit_with ::
  "(rat \<Rightarrow> rat) \<Rightarrow> int \<Rightarrow> int \<Rightarrow> rat \<Rightarrow> int \<Rightarrow> database \<Rightarrow> error + (database \<times> log_result)" where
  "log_habit_with real_column habit_id user_id v d db =
     (case find (\<lambda>h. h_id h = habit_id) (habits db) of
        None \<Rightarrow> Inl TypeError
      | Some habit \<Rightarrow>
          (case find (\<lambda>r. l_habit_id r = habit_id \<and> log_date r = d) (habit_logs db) of
             Some existing \<Rightarrow>
               (let new_value = binary64 (l_value existing + v);
                    completed = (if daily_goal habit \<le> new_value then 1 else 0)
                in Inr (db\<lparr>habit_logs :=
                             map (\<lambda>r. if l_id r = l_id existing
                                       then r\<lparr>l_value := real_column new_value,
                                              l_completed := completed\<rparr>
                                       else r)
                                 (habit_logs db),
                           log_writes := Suc (log_writes db)\<rparr>,
                        \<lparr>r_habit = habit, r_new_value = new_value,
                         r_daily_goal = daily_goal habit, r_completed = completed\<rparr>))
           | None \<Rightarrow>
               (let new_value = v;
                    completed = (if daily_goal habit \<le> new_value then 1 else 0)
                in Inr (db\<lparr>habit_logs :=
                             habit_logs db @
                               [\<lparr>l_id = habit_logs_seq db, l_habit_id = habit_id,
                                 l_user_id = user_id, log_date = d,
                                 l_value = real_column new_value, l_completed = completed\<rparr>],
                           habit_logs_seq := habit_logs_seq db + 1,
                           log_writes := Suc (log_writes db)\<rparr>,
                        \<lparr>r_habit = habit, r_new_value = new_value,
                         r_daily_goal = daily_goal habit, r_completed = completed\<rparr>))))"

text \<open>
  \<open>log_habit\<close> is the function of \<^verbatim>\<open>database.py\<close> (SQLite), which the handlers and
  \<^verbatim>\<open>scheduler.py\<close> call; \<open>log_habit_ht\<close> is the one of \<^verbatim>\<open>habit_tracker/database.py\<close>
  (PostgreSQL), which \<^verbatim>\<open>habit_tracker/scheduler.py\<close> calls.
\<close>

definition log_habit :: "int \<Rightarrow> int \<Rightarrow> rat \<Rightarrow> int \<Rightarrow> database \<Rightarrow> error + (database \<times> log_result)" where
  "log_habit = log_habit_with (\<lambda>x. x)"

definition log_habit_ht :: "int \<Rightarrow> int \<Rightarrow> rat \<Rightarrow> int \<Rightarrow> database \<Rightarrow> error + (database \<times> log_result)" where
  "log_habit_ht = log_habit_with binary32"

subsection \<open>The notification ledger\<close>

text \<open>
  \<^verbatim>\<open>database.py\<close> takes the expiry from its caller (\<^verbatim>\<open>send_habit_notification\<close> passes
  now plus ten minutes); \<^verbatim>\<open>habit_tracker/database.py\<close> computes
  \<^verbatim>\<open>NOW() + INTERVAL '10 minutes'\<close> itself and stores the message to delete.
\<close>

definition create_pending_notification :: "int \<Rightarrow> int \<Rightarrow> int \<Rightarrow> int \<Rightarrow> database \<Rightarrow> database" where
  "create_pending_notification user_id habit_id expires now db =
     db\<lparr>pending_notifications := pending_notifications db @
          [\<lparr>p_user_id = user_id, p_habit_id = habit_id, message_id = None, chat_id = None,
            sent_at = now, expires_at = expires, responded = 0\<rparr>]\<rparr>"

definition create_pending_notification_ht ::
  "int \<Rightarrow> int \<Rightarrow> int option \<Rightarrow> int option \<Rightarrow> int \<Rightarrow> database \<Rightarrow> database" where
  "create_pending_notification_ht user_id habit_id msg chat now db =
     db\<lparr>pending_notifications := pending_notifications db @
          [\<lparr>p_user_id = user_id, p_habit_id = habit_id, message_id = msg, chat_id = chat,
            sent_at = now, expires_at = now + 600, responded = 0\<rparr>]\<rparr>"

definition mark_notification_responded :: "int \<Rightarrow> int \<Rightarrow> database \<Rightarrow> database" where
  "mark_notification_responded user_id habit_id db =
     db\<lparr>pending_notifications :=
          map (\<lambda>n. if p_user_id n = user_id \<and> p_habit_id n = habit_id \<and> responded n = 0
                    then n\<lparr>responded := 1\<rparr> else n)
              (pending_notifications db)\<rparr>"

definition get_expired_notifications :: "int \<Rightarrow> database \<Rightarrow> pending_notification list" where
  "get_expired_notifications now db =
     filter (\<lambda>n. responded n = 0 \<and> expires_at n < now) (pending_notifications db)"

definition delete_expired_notifications :: "int \<Rightarrow> database \<Rightarrow> database" where
  "delete_expired_notifications now db =
     db\<lparr>pending_notifications :=
          filter (\<lambda>n. \<not> (responded n = 1 \<or> expires_at n < now)) (pending_notifications db)\<rparr>"

text \<open>
  \<^verbatim>\<open>send_consolidated_notification\<close> of \<^verbatim>\<open>habit_tracker/scheduler.py\<close>: one message for
  all uncompleted habits, one ledger row that refers to the first of them. \<open>sent\<close> is the
  gateway's answer: the id of the delivered message, or \<open>None\<close> when sending raised (the
  exception is caught and nothing is recorded).
\<close>

definition send_consolidated_notification ::
  "bool \<Rightarrow> int option \<Rightarrow> int \<Rightarrow> int \<Rightarrow> habit list \<Rightarrow> database \<Rightarrow> database" where
  "send_consolidated_notification bot_instance sent now user_id uncompleted_habits db =
     (case uncompleted_habits of
        [] \<Rightarrow> db
      | first # _ \<Rightarrow>
          (if \<not> bot_instance then db
           else (case sent of
                   None \<Rightarrow> db
                 | Some msg \<Rightarrow>
                     create_pending_notification_ht user_id (h_id first) (Some msg)
                       (Some user_id) now db)))"

subsection \<open>Log handlers of \<^verbatim>\<open>handlers.py\<close>\<close>

text \<open>
  Each handler calls \<^verbatim>\<open>log_habit\<close> for today and then
  \<^verbatim>\<open>mark_notification_responded(user, habit_id)\<close>; an exception of \<^verbatim>\<open>log_habit\<close> leaves the
  handler before the ledger is touched. \<^verbatim>\<open>log_boolean\<close> reads an integer from the button,
  \<^verbatim>\<open>log_numeric\<close> and \<^verbatim>\<open>notification_response\<close> a float. \<^verbatim>\<open>log_custom_value\<close> converts the
  user's message with \<^verbatim>\<open>float(message.text.replace(",", "."))\<close>: \<open>text_value\<close> is the
  outcome of that conversion, \<open>None\<close> for a \<^verbatim>\<open>ValueError\<close>, which the handler catches and
  answers with a hint. No handler compares the number with zero.
\<close>

definition log_boolean :: "int \<Rightarrow> int \<Rightarrow> int \<Rightarrow> int \<Rightarrow> database \<Rightarrow> error + database" where
  "log_boolean user_id habit_id v today db =
     (case log_habit habit_id user_id (of_int v) today db of
        Inl e \<Rightarrow> Inl e
      | Inr (db', result) \<Rightarrow> Inr (mark_notification_responded user_id habit_id db'))"

definition log_numeric :: "int \<Rightarrow> int \<Rightarrow> rat \<Rightarrow> int \<Rightarrow> database \<Rightarrow> error + database" where
  "log_numeric user_id habit_id v today db =
     (case log_habit habit_id user_id v today db of
        Inl e \<Rightarrow> Inl e
      | Inr (db', result) \<Rightarrow> Inr (mark_notification_responded user_id habit_id db'))"

definition log_custom_value :: "int \<Rightarrow> int \<Rightarrow> rat option \<Rightarrow> int \<Rightarrow> database \<Rightarrow> error + database" where
  "log_custom_value user_id habit_id text_value today db =
     (case text_value of
        None \<Rightarrow> Inr db
      | Some v \<Rightarrow>
          (case log_habit habit_id user_id v today db of
             Inl e \<Rightarrow> Inl e
           | Inr (db', result) \<Rightarrow> Inr (mark_notification_responded user_id habit_id db')))"

definition notification_response :: "int \<Rightarrow> int \<Rightarrow> rat \<Rightarrow> int \<Rightarrow> database \<Rightarrow> error + database" where
  "notification_response user_id habit_id v today db =
     (case log_habit habit_id user_id v today db of
        Inl e \<Rightarrow> Inl e
      | Inr (db', result) \<Rightarrow> Inr (mark_notification_responded user_id habit_id db'))"

subsection \<open>The expiry sweep\<close>

text \<open>
  \<^verbatim>\<open>check_expired_notifications\<close> of \<^verbatim>\<open>scheduler.py\<close>: for each expired entry, log zero
  for its habit, then tell the user. The body runs in a \<^verbatim>\<open>try\<close>: an exception (an unknown
  habit, a failed send) is printed and the loop goes on; sending changes no table. The
  final deletion is outside the loop. The selection and the deletion read the clock
  separately, at \<open>now_sel\<close> and \<open>now_del\<close>.
\<close>

fun expire_each :: "int \<Rightarrow> pending_notification list \<Rightarrow> database \<Rightarrow> database" where
  "expire_each today [] db = db"
| "expire_each today (notif # rest) db =
     expire_each today rest
       (case log_habit (p_habit_id notif) (p_user_id notif) 0 today db of
          Inl e \<Rightarrow> db
        | Inr (db', result) \<Rightarrow> db')"

definition check_expired_notifications :: "int \<Rightarrow> int \<Rightarrow> int \<Rightarrow> database \<Rightarrow> database" where
  "check_expired_notifications now_sel now_del today db =
     delete_expired_notifications now_del
       (expire_each today (get_expired_notifications now_sel db) db)"

text \<open>
  \<^verbatim>\<open>check_expired_notifications\<close> of \<^verbatim>\<open>habit_tracker/scheduler.py\<close>: delete the delivered
  message (best effort, no table changes), then log zero for every active habit of the
  user whose log of today, read in one batch before the loop, is missing or not
  completed. An exception ends the work on that entry only.
\<close>

fun zero_fill :: "int \<Rightarrow> int \<Rightarrow> (int \<Rightarrow> habit_log option) \<Rightarrow> habit list \<Rightarrow> database \<Rightarrow> database" where
  "zero_fill today user_id logs [] db = db"
| "zero_fill today user_id logs (habit # rest) db =
     (if (case logs (h_id habit) of None \<Rightarrow> True | Some entry \<Rightarrow> l_completed entry = 0)
      then (case log_habit_ht (h_id habit) user_id 0 today db of
              Inl e \<Rightarrow> db
            | Inr (db', result) \<Rightarrow> zero_fill today user_id logs rest db')
      else zero_fill today user_id logs rest db)"

fun expire_each_ht :: "int \<Rightarrow> pending_notification list \<Rightarrow> database \<Rightarrow> database" where
  "expire_each_ht today [] db = db"
| "expire_each_ht today (notif # rest) db =
     expire_each_ht today rest
       (let habits = get_user_habits (p_user_id notif) db
        in if habits = [] then db
           else zero_fill today (p_user_id notif)
                  (get_daily_logs_batch (map h_id habits) today db) habits db)"

definition check_expired_notifications_ht :: "int \<Rightarrow> int \<Rightarrow> int \<Rightarrow> database \<Rightarrow> database" where
  "check_expired_notifications_ht now_sel now_del today db =
     delete_expired_notifications now_del
       (expire_each_ht today (get_expired_notifications now_sel db) db)"

subsection \<open>Marathon points\<close>

definition update_marathon_points :: "int \<Rightarrow> int \<Rightarrow> rat \<Rightarrow> database \<Rightarrow> database" where
  "update_marathon_points user_id marathon points db =
     db\<lparr>marathon_participants :=
          map (\<lambda>p. if mp_user_id p = user_id \<and> mp_marathon_id p = marathon
                    then p\<lparr>total_points := total_points p + points\<rparr> else p)
              (marathon_participants db)\<rparr>"

subsection \<open>End-of-day settlement\<close>

text \<open>
  The body of the loop over a user's habits in \<^verbatim>\<open>process_end_of_day\<close>, the same in both
  schedulers. \<open>habit\<close> is the row read before the loop (its \<open>streak\<close> is the old one), \<open>entry\<close>
  the log of today or \<open>None\<close>. The digest is kept as data: one \<open>day_line\<close> per habit and
  the streak messages; their wording is not modelled. \<^verbatim>\<open>habit.get('marathon_id')\<close> is
  true for an id that is neither \<^verbatim>\<open>None\<close> nor zero.
\<close>

record day_line =
  dl_habit_id :: int
  dl_value :: rat
  dl_goal :: rat
  dl_completed :: bool

datatype streak_update = Streak_fire int int | Streak_lost int

definition settle_habit ::
  "int \<Rightarrow> habit \<Rightarrow> habit_log option \<Rightarrow> database \<Rightarrow> error + (database \<times> day_line \<times> streak_update list)" where
  "settle_habit user_id habit entry db =
     (let v = (case entry of None \<Rightarrow> 0 | Some l \<Rightarrow> l_value l);
          goal = daily_goal habit;
          completed = (goal \<le> v)
      in case update_streak (h_id habit) completed db of
           Inl e \<Rightarrow> Inl e
         | Inr (db1, new_streak, c) \<Rightarrow>
             Inr (if (case marathon_id habit of None \<Rightarrow> False | Some m \<Rightarrow> m \<noteq> 0) \<and> completed
                  then update_marathon_points user_id (the (marathon_id habit)) 1 db1
                  else db1,
                  \<lparr>dl_habit_id = h_id habit, dl_value = v, dl_goal = goal,
                   dl_completed = completed\<rparr>,
                  if completed \<and> 1 < new_streak then [Streak_fire (h_id habit) new_streak]
                  else if \<not> completed \<and> 0 < streak habit then [Streak_lost (h_id habit)]
                  else []))"

text \<open>
  The loop. \<open>lookup\<close> gives the log of a habit from the current log table:
  \<^verbatim>\<open>scheduler.py\<close> queries \<^verbatim>\<open>get_daily_log\<close> inside the loop,
  \<^verbatim>\<open>habit_tracker/scheduler.py\<close> reads the batch once before it. An exception leaves the
  loop with the updates made so far in place (every statement is committed on its own).
\<close>

fun settle_habits ::
  "(database \<Rightarrow> int \<Rightarrow> habit_log option) \<Rightarrow> int \<Rightarrow> habit list \<Rightarrow> database
     \<Rightarrow> database \<times> (error + (day_line list \<times> streak_update list))" where
  "settle_habits lookup user_id [] db = (db, Inr ([], []))"
| "settle_habits lookup user_id (habit # rest) db =
     (case settle_habit user_id habit (lookup db (h_id habit)) db of
        Inl e \<Rightarrow> (db, Inl e)
      | Inr (db1, line, upd) \<Rightarrow>
          (case settle_habits lookup user_id rest db1 of
             (db2, Inl e) \<Rightarrow> (db2, Inl e)
           | (db2, Inr (report_lines, streak_updates)) \<Rightarrow>
               (db2, Inr (line # report_lines, upd @ streak_updates))))"

text \<open>
  One digest per user whose loop ended without an exception is handed to the gateway; a
  user without active habits is skipped. Whether the send succeeds changes no table.
\<close>

record digest =
  dg_user_id :: int
  dg_lines :: "day_line list"
  dg_streak_updates :: "streak_update list"

fun end_of_day_users ::
  "(int \<Rightarrow> database \<Rightarrow> database \<Rightarrow> int \<Rightarrow> habit_log option) \<Rightarrow> int list \<Rightarrow> database
     \<Rightarrow> database \<times> digest list" where
  "end_of_day_users lookup [] db = (db, [])"
| "end_of_day_users lookup (user_id # rest) db =
     (let habits = get_user_habits user_id db
      in if habits = [] then end_of_day_users lookup rest db
         else (case settle_habits (lookup user_id db) user_id habits db of
                 (db1, Inl e) \<Rightarrow> end_of_day_users lookup rest db1
               | (db1, Inr (report_lines, streak_updates)) \<Rightarrow>
                   (case end_of_day_users lookup rest db1 of
                      (db2, sent) \<Rightarrow>
                        (db2, \<lparr>dg_user_id = user_id, dg_lines = report_lines,
                               dg_streak_updates = streak_updates\<rparr> # sent))))"

definition process_end_of_day :: "bool \<Rightarrow> int \<Rightarrow> database \<Rightarrow> database \<times> digest list" where
  "process_end_of_day bot_instance today db =
     (if \<not> bot_instance then (db, [])
      else end_of_day_users (\<lambda>user_id db0 db hid. get_daily_log hid today db) (users db) db)"

definition process_end_of_day_ht :: "bool \<Rightarrow> int \<Rightarrow> database \<Rightarrow> database \<times> digest list" where
  "process_end_of_day_ht bot_instance today db =
     (if \<not> bot_instance then (db, [])
      else end_of_day_users
             (\<lambda>user_id db0 db.
                get_daily_logs_batch (map h_id (get_user_habits user_id db0)) today db0)
             (users db) db)"

subsection \<open>Statistics\<close>

text \<open>
  Python's \<^verbatim>\<open>round(x, n)\<close> of a float \<open>x\<close>: the decimal with \<open>n\<close> digits after the point
  that is nearest to the exact value of \<open>x\<close> (a tie to the even digit), converted back to
  the nearest float.
\<close>

definition py_round :: "rat \<Rightarrow> nat \<Rightarrow> rat" where
  "py_round x n = binary64 (of_int (round_half_even (x * 10 ^ n)) / 10 ^ n)"

text \<open>\<^verbatim>\<open>max(logs, key=...)\<close> keeps the first of several largest rows.\<close>

fun max_by_value :: "habit_log \<Rightarrow> habit_log list \<Rightarrow> habit_log" where
  "max_by_value best [] = best"
| "max_by_value best (r # rs) = max_by_value (if l_value best < l_value r then r else best) rs"

datatype habit_stats =
  Boolean_stats (st_habit: habit) (total_days: int) (completed_days: int) (missed_days: int)
    (efficiency: rat) (st_logs: "habit_log list")
| Numeric_stats (st_habit: habit) (total_days: int) (total_value: rat) (average: rat)
    (best_day: "habit_log option") (completed_days: int) (st_logs: "habit_log list")

text \<open>
  \<^verbatim>\<open>get_habit_stats(habit_id, start_date, end_date)\<close>. \<^verbatim>\<open>completed / total_days\<close> divides
  two integers, which gives the float nearest to the quotient; \<^verbatim>\<open>* 100\<close> is a float
  multiplication. The built-in \<^verbatim>\<open>sum\<close> of the numeric branch adds floats in a way that
  depends on the interpreter (plain left-to-right additions before CPython 3.12, a
  compensated sum since), so it is the parameter \<open>py_sum\<close>; \<open>fold_sum\<close> is the
  left-to-right one.
\<close>

definition fold_sum :: "rat list \<Rightarrow> rat" where
  "fold_sum xs = foldl (\<lambda>acc x. binary64 (acc + x)) 0 xs"

definition get_habit_stats ::
  "(rat list \<Rightarrow> rat) \<Rightarrow> int \<Rightarrow> int \<Rightarrow> int \<Rightarrow> database \<Rightarrow> error + habit_stats" where
  "get_habit_stats py_sum habit_id start_date end_date db =
     (case find (\<lambda>h. h_id h = habit_id) (habits db) of
        None \<Rightarrow> Inl TypeError
      | Some habit \<Rightarrow>
          (let logs = sort_key log_date
                        (filter (\<lambda>r. l_habit_id r = habit_id \<and> start_date \<le> log_date r \<and>
                                      log_date r \<le> end_date) (habit_logs db));
               total_days = (end_date - start_date) + 1;
               completed = int (length (filter (\<lambda>entry. l_completed entry \<noteq> 0) logs))
           in if h_type habit = Boolean
              then Inr (Boolean_stats habit total_days completed (total_days - completed)
                         (if 0 < total_days
                          then py_round
                                 (binary64 (binary64 (of_int completed / of_int total_days) * 100)) 1
                          else 0)
                         logs)
              else (let total_value = py_sum (map l_value logs)
                    in Inr (Numeric_stats habit total_days total_value
                             (if 0 < total_days
                              then py_round (binary64 (total_value / of_int total_days)) 2
                              else 0)
                             (case logs of [] \<Rightarrow> None | r # rs \<Rightarrow> Some (max_by_value r rs))
                             completed logs))))"

subsection \<open>Invariants and sample stores\<close>

text \<open>The streak invariant of the data model, for every row of the habits table.\<close>

definition streak_inv :: "database \<Rightarrow> bool" where
  "streak_inv db = list_all (\<lambda>h. 0 \<le> streak h \<and> streak h \<le> max_streak h) (habits db)"

text \<open>
  A small store used to run the definitions: user 7 has a numeric habit with goal 3, linked
  to marathon 2 and on a streak of four days, and a boolean habit; user 7 takes part in
  marathon 2.
\<close>

definition run_habit :: habit where
  "run_habit = \<lparr>h_id = 1, h_user_id = 7, h_type = Numeric, daily_goal = 3, streak = 4,
                max_streak = 4, is_active = 1, marathon_id = Some 2\<rparr>"

definition read_habit :: habit where
  "read_habit = \<lparr>h_id = 2, h_user_id = 7, h_type = Boolean, daily_goal = 1, streak = 0,
                 max_streak = 2, is_active = 1, marathon_id = None\<rparr>"

definition demo_db :: database where
  "demo_db = \<lparr>users = [7], habits = [run_habit, read_habit], habit_logs = [],
              habit_logs_seq = 1, pending_notifications = [],
              marathon_participants = [\<lparr>mp_marathon_id = 2, mp_user_id = 7, total_points = 0\<rparr>],
              log_writes = 0\<rparr>"

text \<open>
  The keys of the log table, and the value on record for a habit and a day (zero without a
  row, as the settlement reads it).
\<close>

definition log_keys :: "database \<Rightarrow> (int \<times> int) list" where
  "log_keys db = map (\<lambda>r. (l_habit_id r, log_date r)) (habit_logs db)"

definition day_value :: "int \<Rightarrow> int \<Rightarrow> database \<Rightarrow> rat" where
  "day_value habit_id d db = (case get_daily_log habit_id d db of None \<Rightarrow> 0 | Some e \<Rightarrow> l_value e)"

text \<open>The sample store after user 7 logged 5 for habit 1 on day 10, and after a further -3.\<close>

definition db_five :: database where
  "db_five = demo_db\<lparr>habit_logs := [\<lparr>l_id = 1, l_habit_id = 1, l_user_id = 7, log_date = 10,
                                     l_value = 5, l_completed = 1\<rparr>],
                     habit_logs_seq := 2, log_writes := 1\<rparr>"


text \<open>
  The sample store after the consolidated reminder (message 55, sent at second 100) for
  both habits of user 7, and after the user then answered for habit 2 on day 10.
\<close>

definition db_reminded :: database where
  "db_reminded = demo_db\<lparr>pending_notifications :=
       [\<lparr>p_user_id = 7, p_habit_id = 1, message_id = Some 55, chat_id = Some 7,
         sent_at = 100, expires_at = 700, responded = 0\<rparr>]\<rparr>"

definition db_answered :: database where
  "db_answered = db_reminded\<lparr>habit_logs :=
       [\<lparr>l_id = 1, l_habit_id = 2, l_user_id = 7, log_date = 10, l_value = 1, l_completed = 1\<rparr>],
       habit_logs_seq := 2, log_writes := 1\<rparr>"

text \<open>What a log handler's call of \<^verbatim>\<open>mark_notification_responded\<close> does to one ledger row.\<close>

definition marked :: "int \<Rightarrow> int \<Rightarrow> pending_notification \<Rightarrow> pending_notification" where
  "marked user_id habit_id n =
     (if p_user_id n = user_id \<and> p_habit_id n = habit_id \<and> responded n = 0
      then n\<lparr>responded := 1\<rparr> else n)"

text \<open>
  The sample store with three reminders of user 7: one for a habit that no longer exists
  (SQLite does not enforce the foreign key) and one for habit 1, both expired at second
  1000, and one for habit 2 that is still open then.
\<close>

definition db_overdue :: database where
  "db_overdue = demo_db\<lparr>pending_notifications :=
       [\<lparr>p_user_id = 7, p_habit_id = 99, message_id = None, chat_id = None,
         sent_at = 100, expires_at = 700, responded = 0\<rparr>,
        \<lparr>p_user_id = 7, p_habit_id = 1, message_id = None, chat_id = None,
         sent_at = 100, expires_at = 700, responded = 0\<rparr>,
        \<lparr>p_user_id = 7, p_habit_id = 2, message_id = None, chat_id = None,
         sent_at = 900, expires_at = 1500, responded = 0\<rparr>]\<rparr>"

text \<open>
  The sample store after a week (days 1 to 7) of the boolean habit 2: done on five days,
  answered "no" on day 4, nothing logged on day 6.
\<close>

definition db_week :: database where
  "db_week = demo_db\<lparr>habit_logs :=
       [\<lparr>l_id = 1, l_habit_id = 2, l_user_id = 7, log_date = 1, l_value = 1, l_completed = 1\<rparr>,
        \<lparr>l_id = 2, l_habit_id = 2, l_user_id = 7, log_date = 2, l_value = 1, l_completed = 1\<rparr>,
        \<lparr>l_id = 3, l_habit_id = 2, l_user_id = 7, log_date = 3, l_value = 1, l_completed = 1\<rparr>,
        \<lparr>l_id = 4, l_habit_id = 2, l_user_id = 7, log_date = 4, l_value = 0, l_completed = 0\<rparr>,
        \<lparr>l_id = 5, l_habit_id = 2, l_user_id = 7, log_date = 5, l_value = 1, l_completed = 1\<rparr>,
        \<lparr>l_id = 6, l_habit_id = 2, l_user_id = 7, log_date = 7, l_value = 1, l_completed = 1\<rparr>],
       habit_logs_seq := 7, log_writes := 6\<rparr>"

text \<open>
  The points a settlement run owes: \<open>credited\<close> says that a habit, read with the given
  log lookup, is linked to marathon \<open>m\<close> (a true id) and reached its goal; \<open>credits\<close> counts
  such habits of one user for a participant row of that user; \<open>day_credits\<close> counts, for a
  participant row, the active habits of its user that are linked to its marathon and
  whose value on record for the day is at least the goal, if the user is in the users
  table. \<open>strip\<close> forgets the streak counters of a habit row.
\<close>

definition credited :: "(int \<Rightarrow> habit_log option) \<Rightarrow> int \<Rightarrow> habit \<Rightarrow> bool" where
  "credited lk m h =
     (marathon_id h = Some m \<and> m \<noteq> 0 \<and>
      daily_goal h \<le> (case lk (h_id h) of None \<Rightarrow> 0 | Some l \<Rightarrow> l_value l))"

definition credits :: "(int \<Rightarrow> habit_log option) \<Rightarrow> int \<Rightarrow> habit list \<Rightarrow> marathon_participant \<Rightarrow> nat" where
  "credits lk user_id hs p =
     (if mp_user_id p = user_id then length (filter (credited lk (mp_marathon_id p)) hs) else 0)"

definition day_credits :: "int \<Rightarrow> database \<Rightarrow> marathon_participant \<Rightarrow> nat" where
  "day_credits today db p =
     (if mp_user_id p \<in> set (users db)
      then length (filter (\<lambda>h. marathon_id h = Some (mp_marathon_id p) \<and> mp_marathon_id p \<noteq> 0 \<and>
                               daily_goal h \<le> day_value (h_id h) today db)
                     (get_user_habits (mp_user_id p) db))
      else 0)"

definition add_points :: "(marathon_participant \<Rightarrow> nat) \<Rightarrow> marathon_participant list \<Rightarrow> marathon_participant list" where
  "add_points k ps = map (\<lambda>p. p\<lparr>total_points := total_points p + of_nat (k p)\<rparr>) ps"

definition strip :: "habit \<Rightarrow> habit" where
  "strip h = h\<lparr>streak := 0, max_streak := 0\<rparr>"










text \<open>
  The sample store after the boolean habit 2 was done on each of the days 1 to 23, and
  the statistics of the days 1 to 80.
\<close>

definition db_quarter :: database where
  "db_quarter = demo_db\<lparr>habit_logs :=
       map (\<lambda>i. \<lparr>l_id = i, l_habit_id = 2, l_user_id = 7, log_date = i, l_value = 1,
                  l_completed = 1\<rparr>) [1..23],
       habit_logs_seq := 24, log_writes := 23\<rparr>"

definition quarter_stats :: habit_stats where
  "quarter_stats = Boolean_stats read_habit 80 23 57 (8078331831595827 / 281474976710656)
                     (habit_logs db_quarter)"



section \<open>Rounding to binary floating point\<close>

declare ilog2.simps [simp del]

lemma pow2_powi: "pow2 e = 2 powi e"
  by (simp add: pow2_def power_int_def power_inverse field_simps)

lemma pow2_pos [simp]: "0 < pow2 e"
  by (simp add: pow2_powi)

lemma pow2_nonneg [simp]: "0 \<le> pow2 e"
  using pow2_pos [of e] by (simp only: less_imp_le)

lemma pow2_neq0 [simp]: "pow2 e \<noteq> 0"
  by (metis pow2_pos less_irrefl)

lemma pow2_add: "pow2 (a + b) = pow2 a * pow2 b"
  by (simp add: pow2_powi power_int_add)

lemma pow2_0 [simp]: "pow2 0 = 1"
  by (simp add: pow2_def)

lemma pow2_nat: "pow2 (int n) = 2 ^ n"
  by (simp add: pow2_def)

lemma pow2_Suc: "pow2 (e + 1) = 2 * pow2 e"
  by (simp add: pow2_add) (simp add: pow2_def)

lemma pow2_mono: "a \<le> b \<Longrightarrow> pow2 a \<le> pow2 b"
  by (simp add: pow2_powi power_int_increasing)

lemma pow2_strict_mono: "a < b \<Longrightarrow> pow2 a < pow2 b"
  by (simp add: pow2_powi power_int_strict_increasing)

lemma pow2_le_iff: "pow2 a \<le> pow2 b \<longleftrightarrow> a \<le> b"
  using pow2_mono [of a b] pow2_strict_mono [of b a] by (auto simp: not_le [symmetric])

lemma pow2_less_iff: "pow2 a < pow2 b \<longleftrightarrow> a < b"
  using pow2_mono [of b a] pow2_strict_mono [of a b] by (auto simp: not_less [symmetric])

lemma pow2_minus: "pow2 (- a) = 1 / pow2 a"
  by (simp add: pow2_powi power_int_minus field_simps)

lemma pow2_diff: "pow2 (a - b) = pow2 a / pow2 b"
  using pow2_add [of a "- b"] by (simp add: pow2_minus)

lemma pow2_int_multiple:
  assumes "a \<le> b"
  shows "pow2 b = of_int (2 ^ nat (b - a)) * pow2 a"
proof -
  have "b = int (nat (b - a)) + a" using assms by simp
  then have "pow2 b = pow2 (int (nat (b - a)) + a)" by simp
  also have "\<dots> = pow2 (int (nat (b - a))) * pow2 a" by (rule pow2_add)
  also have "pow2 (int (nat (b - a))) = 2 ^ nat (b - a)" by (rule pow2_nat)
  finally show ?thesis by simp
qed

lemma ilog2_bounds: "0 < n \<Longrightarrow> 2 ^ ilog2 n \<le> n \<and> n < 2 ^ Suc (ilog2 n)"
proof (induction n rule: ilog2.induct)
  case (1 n)
  show ?case
  proof (cases "n < 2")
    case True
    then have "n = 1" using 1(2) by simp
    then show ?thesis by (simp add: ilog2.simps)
  next
    case False
    then have "0 < n div 2" by simp
    with 1(1) False have ih: "2 ^ ilog2 (n div 2) \<le> n div 2" "n div 2 < 2 ^ Suc (ilog2 (n div 2))"
      by simp_all
    have eq: "ilog2 n = Suc (ilog2 (n div 2))" using False by (simp add: ilog2.simps)
    from ih show ?thesis unfolding eq by (simp; linarith)
  qed
qed

lemma expo_bounds:
  assumes "x \<noteq> 0"
  shows "pow2 (expo x) \<le> \<bar>x\<bar>" and "\<bar>x\<bar> < pow2 (expo x + 1)"
proof -
  define a where "a = \<bar>x\<bar>"
  have apos: "0 < a" using assms by (simp add: a_def)
  have "pow2 (expo x) \<le> a \<and> a < pow2 (expo x + 1)"
  proof (cases "1 \<le> a")
    case True
    define n where "n = nat \<lfloor>a\<rfloor>"
    have n1: "1 \<le> \<lfloor>a\<rfloor>" using True by linarith
    then have npos: "0 < n" by (simp add: n_def)
    have e: "expo x = int (ilog2 n)" using True by (simp add: expo_def a_def n_def Let_def)
    from ilog2_bounds [OF npos] have b: "2 ^ ilog2 n \<le> n" "n < 2 ^ Suc (ilog2 n)" by simp_all
    have fl: "of_int \<lfloor>a\<rfloor> \<le> a" "a < of_int \<lfloor>a\<rfloor> + 1" by linarith+
    have nint: "int n = \<lfloor>a\<rfloor>" using n1 by (simp add: n_def)
    have "(2::rat) ^ ilog2 n \<le> of_nat n" using b(1) by (metis of_nat_le_iff of_nat_numeral of_nat_power)
    also have "\<dots> = of_int \<lfloor>a\<rfloor>" using nint by (metis of_int_of_nat_eq)
    finally have lo: "2 ^ ilog2 n \<le> a" using fl(1) by linarith
    have "int n + 1 \<le> 2 ^ Suc (ilog2 n)" using b(2)
      by (metis of_nat_less_iff of_nat_numeral of_nat_power zless_imp_add1_zle)
    then have "(of_int (int n + 1) :: rat) \<le> of_int (2 ^ Suc (ilog2 n))" by (simp only: of_int_le_iff)
    then have "of_int \<lfloor>a\<rfloor> + 1 \<le> (2::rat) ^ Suc (ilog2 n)" using nint by simp
    then have hi: "a < 2 ^ Suc (ilog2 n)" using fl(2) by linarith
    have "pow2 (expo x + 1) = 2 ^ Suc (ilog2 n)" unfolding e pow2_Suc by (simp add: pow2_nat)
    moreover have "pow2 (expo x) = 2 ^ ilog2 n" unfolding e by (simp add: pow2_nat)
    ultimately show ?thesis using lo hi by simp
  next
    case False
    define y where "y = 1 / a"
    have y1: "1 < y" using False apos by (simp add: y_def)
    define n where "n = nat (\<lceil>y\<rceil> - 1)"
    have c2: "2 \<le> \<lceil>y\<rceil>" using y1 by linarith
    then have npos: "0 < n" by (simp add: n_def)
    have nint: "int n = \<lceil>y\<rceil> - 1" using c2 by (simp add: n_def)
    have e: "expo x = - int (ilog2 n) - 1" using False by (simp add: expo_def a_def n_def y_def Let_def)
    from ilog2_bounds [OF npos] have b: "2 ^ ilog2 n \<le> n" "n < 2 ^ Suc (ilog2 n)" by simp_all
    have cl: "y \<le> of_int \<lceil>y\<rceil>" "of_int \<lceil>y\<rceil> - 1 < y" by linarith+
    have "(2::rat) ^ ilog2 n \<le> of_nat n" using b(1) by (metis of_nat_le_iff of_nat_numeral of_nat_power)
    also have "\<dots> = of_int (int n)" by simp
    also have "\<dots> = of_int \<lceil>y\<rceil> - 1" unfolding nint by simp
    finally have lo: "2 ^ ilog2 n < y" using cl(2) by linarith
    have "int n + 1 \<le> 2 ^ Suc (ilog2 n)" using b(2)
      by (metis of_nat_less_iff of_nat_numeral of_nat_power zless_imp_add1_zle)
    then have "(of_int (int n + 1) :: rat) \<le> of_int (2 ^ Suc (ilog2 n))" by (simp only: of_int_le_iff)
    then have "of_int \<lceil>y\<rceil> \<le> (2::rat) ^ Suc (ilog2 n)" using nint by simp
    then have hi: "y \<le> 2 ^ Suc (ilog2 n)" using cl(1) by linarith
    have p1: "pow2 (expo x) = 1 / 2 ^ Suc (ilog2 n)"
      unfolding e by (simp add: pow2_def nat_add_distrib)
    have p2: "pow2 (expo x + 1) = 1 / 2 ^ ilog2 n"
      unfolding e by (simp add: pow2_def)
    have ay: "a = 1 / y" by (simp add: y_def)
    have ypos: "0 < y" using y1 by simp
    have "1 / 2 ^ Suc (ilog2 n) \<le> 1 / y" using hi ypos by (simp add: frac_le)
    moreover have "1 / y < 1 / 2 ^ ilog2 n" using lo by (simp add: frac_less2)
    ultimately show ?thesis unfolding p1 p2 ay by simp
  qed
  then show "pow2 (expo x) \<le> \<bar>x\<bar>" and "\<bar>x\<bar> < pow2 (expo x + 1)" by (simp_all add: a_def)
qed

lemma expo_unique:
  assumes "pow2 e \<le> \<bar>x\<bar>" and "\<bar>x\<bar> < pow2 (e + 1)"
  shows "expo x = e"
proof -
  have "0 < \<bar>x\<bar>" using assms(1) pow2_pos [of e] by linarith
  then have nz: "x \<noteq> 0" by simp
  from expo_bounds [OF nz] have b: "pow2 (expo x) \<le> \<bar>x\<bar>" "\<bar>x\<bar> < pow2 (expo x + 1)" .
  have "pow2 e < pow2 (expo x + 1)" using assms(1) b(2) by simp
  then have "e < expo x + 1" by (simp add: pow2_less_iff)
  moreover have "pow2 (expo x) < pow2 (e + 1)" using assms(2) b(1) by simp
  then have "expo x < e + 1" by (simp add: pow2_less_iff)
  ultimately show ?thesis by simp
qed

lemma expo_minus [simp]: "expo (- x) = expo x"
  by (simp add: expo_def)

lemma expo_mono:
  assumes "x \<noteq> 0" and "\<bar>x\<bar> \<le> \<bar>y\<bar>"
  shows "expo x \<le> expo y"
proof -
  have ny: "y \<noteq> 0" using assms by auto
  have "pow2 (expo x) \<le> \<bar>x\<bar>" using expo_bounds(1) [OF assms(1)] .
  also have "\<dots> \<le> \<bar>y\<bar>" by fact
  also have "\<dots> < pow2 (expo y + 1)" using expo_bounds(2) [OF ny] .
  finally have "expo x < expo y + 1" by (simp add: pow2_less_iff)
  then show ?thesis by simp
qed

lemma round_half_even_cases:
  obtains (down) "x - of_int \<lfloor>x\<rfloor> < 1 / 2" "round_half_even x = \<lfloor>x\<rfloor>"
  | (up) "1 / 2 < x - of_int \<lfloor>x\<rfloor>" "round_half_even x = \<lfloor>x\<rfloor> + 1"
  | (tie_even) "x - of_int \<lfloor>x\<rfloor> = 1 / 2" "even \<lfloor>x\<rfloor>" "round_half_even x = \<lfloor>x\<rfloor>"
  | (tie_odd) "x - of_int \<lfloor>x\<rfloor> = 1 / 2" "odd \<lfloor>x\<rfloor>" "round_half_even x = \<lfloor>x\<rfloor> + 1"
proof -
  consider "x - of_int \<lfloor>x\<rfloor> < 1 / 2" | "1 / 2 < x - of_int \<lfloor>x\<rfloor>"
    | "x - of_int \<lfloor>x\<rfloor> = 1 / 2" "even \<lfloor>x\<rfloor>" | "x - of_int \<lfloor>x\<rfloor> = 1 / 2" "odd \<lfloor>x\<rfloor>"
    by fastforce
  then show ?thesis
  proof cases
    case 1
    then show ?thesis using down by (simp add: round_half_even_def Let_def)
  next
    case 2
    then show ?thesis using up by (simp add: round_half_even_def Let_def)
  next
    case 3
    then show ?thesis using tie_even by (simp add: round_half_even_def Let_def)
  next
    case 4
    then show ?thesis using tie_odd by (simp add: round_half_even_def Let_def)
  qed
qed

lemma round_half_even_near: "\<bar>x - of_int (round_half_even x)\<bar> \<le> 1 / 2"
proof -
  have fl: "of_int \<lfloor>x\<rfloor> \<le> x" "x < of_int \<lfloor>x\<rfloor> + 1" by linarith+
  show ?thesis
  proof (cases x rule: round_half_even_cases)
    case down
    have "(of_int (round_half_even x) :: rat) = of_int \<lfloor>x\<rfloor>" using down(2) by simp
    then show ?thesis using fl down(1) by linarith
  next
    case up
    have "(of_int (round_half_even x) :: rat) = of_int \<lfloor>x\<rfloor> + 1" using up(2) by simp
    then show ?thesis using fl up(1) by linarith
  next
    case tie_even
    have "(of_int (round_half_even x) :: rat) = of_int \<lfloor>x\<rfloor>" using tie_even(3) by simp
    then show ?thesis using fl tie_even(1) by linarith
  next
    case tie_odd
    have "(of_int (round_half_even x) :: rat) = of_int \<lfloor>x\<rfloor> + 1" using tie_odd(3) by simp
    then show ?thesis using fl tie_odd(1) by linarith
  qed
qed

lemma round_half_even_unique:
  assumes "\<bar>x - of_int k\<bar> < 1 / 2"
  shows "round_half_even x = k"
proof -
  have "\<bar>of_int (round_half_even x) - (of_int k :: rat)\<bar> < 1"
    using round_half_even_near [of x] assms by linarith
  then have "\<bar>(of_int (round_half_even x - k) :: rat)\<bar> < of_int 1" by simp
  then have "\<bar>round_half_even x - k\<bar> < 1"
    by (metis of_int_abs of_int_less_iff)
  then show ?thesis by simp
qed

lemma round_half_even_of_int [simp]: "round_half_even (of_int k) = k"
  by (rule round_half_even_unique) simp

lemma round_half_even_0 [simp]: "round_half_even 0 = 0"
  using round_half_even_of_int [of 0] by simp

lemma round_half_even_mono:
  assumes "x \<le> y"
  shows "round_half_even x \<le> round_half_even y"
proof -
  have fx: "of_int \<lfloor>x\<rfloor> \<le> x" "x < of_int \<lfloor>x\<rfloor> + 1" by linarith+
  have fy: "of_int \<lfloor>y\<rfloor> \<le> y" "y < of_int \<lfloor>y\<rfloor> + 1" by linarith+
  have le: "\<lfloor>x\<rfloor> \<le> \<lfloor>y\<rfloor>" using assms by (rule floor_mono)
  have lo: "\<lfloor>y\<rfloor> \<le> round_half_even y"
    by (cases y rule: round_half_even_cases) simp_all
  have hi: "round_half_even x \<le> \<lfloor>x\<rfloor> + 1"
    by (cases x rule: round_half_even_cases) simp_all
  show ?thesis
  proof (cases "\<lfloor>x\<rfloor> = \<lfloor>y\<rfloor>")
    case False
    then have "\<lfloor>x\<rfloor> + 1 \<le> \<lfloor>y\<rfloor>" using le by simp
    then show ?thesis using lo hi by linarith
  next
    case True
    define f where "f = \<lfloor>y\<rfloor>"
    define rx where "rx = x - of_int f"
    define ry where "ry = y - of_int f"
    have rel: "rx \<le> ry" using assms by (simp add: rx_def ry_def)
    have "round_half_even x =
            (if rx < 1 / 2 then f else if 1 / 2 < rx then f + 1 else if even f then f else f + 1)"
      unfolding round_half_even_def Let_def True rx_def f_def by (rule refl)
    moreover have "round_half_even y =
            (if ry < 1 / 2 then f else if 1 / 2 < ry then f + 1 else if even f then f else f + 1)"
      unfolding round_half_even_def Let_def ry_def f_def by (rule refl)
    ultimately show ?thesis using rel by auto
  qed
qed

lemma round_half_even_minus: "round_half_even (- x) = - round_half_even x"
proof (cases "x = of_int \<lfloor>x\<rfloor>")
  case True
  then obtain k where "x = of_int k" ..
  then show ?thesis using round_half_even_of_int [of "- k"] by simp
next
  case False
  have fx: "of_int \<lfloor>x\<rfloor> \<le> x" "x < of_int \<lfloor>x\<rfloor> + 1" by linarith+
  have lt: "of_int \<lfloor>x\<rfloor> < x" unfolding less_le using False by auto
  have fm: "\<lfloor>- x\<rfloor> = - \<lfloor>x\<rfloor> - 1"
  proof (rule floor_unique)
    show "of_int (- \<lfloor>x\<rfloor> - 1) \<le> - x" using fx(2) by simp
    show "- x < of_int (- \<lfloor>x\<rfloor> - 1) + 1" using lt by simp
  qed
  define f where "f = \<lfloor>x\<rfloor>"
  define r where "r = x - of_int f"
  have r: "0 < r" "r < 1" using lt fx(2) by (simp_all add: r_def f_def)
  have rm: "- x - of_int (- f - 1) = 1 - r" by (simp add: r_def)
  have a: "round_half_even x =
            (if r < 1 / 2 then f else if 1 / 2 < r then f + 1 else if even f then f else f + 1)"
    unfolding round_half_even_def Let_def r_def f_def by (rule refl)
  have b: "round_half_even (- x) =
            (if 1 - r < 1 / 2 then - f - 1 else if 1 / 2 < 1 - r then - f - 1 + 1
             else if even (- f - 1) then - f - 1 else - f - 1 + 1)"
    unfolding round_half_even_def Let_def fm rm [unfolded f_def] f_def by (rule refl)
  show ?thesis unfolding a b using r by auto
qed

lemma grid_0 [simp]: "grid q 0 = 0"
  by (simp add: grid_def)

lemma grid_minus: "grid q (- x) = - grid q x"
  by (simp add: grid_def round_half_even_minus)

lemma grid_mono:
  assumes "0 < q" and "x \<le> y"
  shows "grid q x \<le> grid q y"
proof -
  have "x / q \<le> y / q" using assms by (simp add: divide_right_mono)
  then have "round_half_even (x / q) \<le> round_half_even (y / q)" by (rule round_half_even_mono)
  then have "(of_int (round_half_even (x / q)) :: rat) \<le> of_int (round_half_even (y / q))"
    by simp
  then show ?thesis unfolding grid_def using assms(1) by (simp add: mult_right_mono)
qed

lemma grid_fix:
  assumes "0 < q"
  shows "grid q (of_int k * q) = of_int k * q"
  using assms by (simp add: grid_def)

lemma grid_pow2:
  assumes "m \<le> j"
  shows "grid (pow2 m) (of_int k * pow2 j) = of_int k * pow2 j"
proof -
  have eq: "of_int k * pow2 j = of_int (k * 2 ^ nat (j - m)) * pow2 m"
    by (subst pow2_int_multiple [OF assms]) (simp only: of_int_mult mult.assoc)
  show ?thesis unfolding eq by (rule grid_fix) simp
qed

lemma grid_nonneg: "0 < q \<Longrightarrow> 0 \<le> x \<Longrightarrow> 0 \<le> grid q x"
  using grid_mono [of q 0 x] by simp

lemma binary_0 [simp]: "binary p qmin 0 = 0"
  by (simp add: binary_def)

lemma binary_minus: "binary p qmin (- x) = - binary p qmin x"
  by (simp add: binary_def grid_minus)

lemma binary_nonneg: "0 \<le> x \<Longrightarrow> 0 \<le> binary p qmin x"
  by (simp add: binary_def grid_nonneg)

lemma binary_fix:
  assumes "x = of_int k * pow2 j" and "max (expo x - int p + 1) qmin \<le> j"
  shows "binary p qmin x = x"
proof (cases "x = 0")
  case True
  then show ?thesis by simp
next
  case False
  have "grid (pow2 (max (expo x - int p + 1) qmin)) (of_int k * pow2 j) = of_int k * pow2 j"
    using assms(2) by (rule grid_pow2)
  then show ?thesis using False assms(1) by (simp add: binary_def)
qed

lemma binary_mono_pos:
  assumes p: "0 < p" and x: "0 < x" and xy: "x \<le> y"
  shows "binary p qmin x \<le> binary p qmin y"
proof -
  define mx where "mx = max (expo x - int p + 1) qmin"
  define my where "my = max (expo y - int p + 1) qmin"
  have nx: "x \<noteq> 0" and ny: "y \<noteq> 0" using x xy by auto
  have bx: "binary p qmin x = grid (pow2 mx) x" using nx by (simp add: binary_def mx_def)
  have by': "binary p qmin y = grid (pow2 my) y" using ny by (simp add: binary_def my_def)
  have ee: "expo x \<le> expo y" using nx x xy by (intro expo_mono) auto
  then have mm: "mx \<le> my" by (simp add: mx_def my_def)
  show ?thesis
  proof (cases "mx = my")
    case True
    then show ?thesis unfolding bx by' using xy by (simp add: grid_mono)
  next
    case False
    then have lt: "mx < my" using mm by simp
    have qm: "qmin \<le> mx" by (simp add: mx_def)
    have my: "my = expo y - int p + 1" using lt qm by (simp add: my_def max_def split: if_splits)
    have "expo x - int p + 1 \<le> mx" by (simp add: mx_def)
    then have elt: "expo x + 1 \<le> expo y" using lt my by simp
    define B where "B = pow2 (expo y)"
    have "x < pow2 (expo x + 1)" using expo_bounds(2) [OF nx] x by simp
    also have "\<dots> \<le> B" unfolding B_def using elt by (rule pow2_mono)
    finally have xB: "x \<le> B" by simp
    have ypos: "0 < y" using x xy by simp
    have By: "B \<le> y" using expo_bounds(1) [OF ny] ypos by (simp add: B_def)
    have j1: "mx \<le> expo y" using lt my p by simp
    have j2: "my \<le> expo y" using my p by simp
    have g1: "grid (pow2 mx) B = B" using grid_pow2 [OF j1, of 1] by (simp add: B_def)
    have g2: "grid (pow2 my) B = B" using grid_pow2 [OF j2, of 1] by (simp add: B_def)
    have "grid (pow2 mx) x \<le> grid (pow2 mx) B" using xB by (simp add: grid_mono)
    also have "\<dots> = grid (pow2 my) B" using g1 g2 by simp
    also have "\<dots> \<le> grid (pow2 my) y" using By by (simp add: grid_mono)
    finally show ?thesis unfolding bx by' .
  qed
qed

lemma binary_mono:
  assumes p: "0 < p" and xy: "x \<le> y"
  shows "binary p qmin x \<le> binary p qmin y"
proof -
  consider "0 < x" | "x \<le> 0" "0 \<le> y" | "y < 0" by linarith
  then show ?thesis
  proof cases
    case 1
    from 1 xy show ?thesis by (rule binary_mono_pos [OF p])
  next
    case 2
    have "0 \<le> binary p qmin (- x)" using 2(1) by (intro binary_nonneg) simp
    then have "binary p qmin x \<le> 0" by (simp add: binary_minus)
    moreover have "0 \<le> binary p qmin y" using 2(2) by (rule binary_nonneg)
    ultimately show ?thesis by simp
  next
    case 3
    then have "0 < - y" "- y \<le> - x" using xy by simp_all
    then have "binary p qmin (- y) \<le> binary p qmin (- x)" by (rule binary_mono_pos [OF p])
    then show ?thesis by (simp add: binary_minus)
  qed
qed

lemma binary_grid:
  assumes "x \<noteq> 0"
  shows "binary p qmin x =
           of_int (round_half_even (x / pow2 (max (expo x - int p + 1) qmin))) *
           pow2 (max (expo x - int p + 1) qmin)"
  using assms by (simp add: binary_def grid_def)


lemma binary_int:
  assumes "\<bar>n\<bar> < 2 ^ p" and "qmin \<le> 0"
  shows "binary p qmin (of_int n) = of_int n"
proof (cases "n = 0")
  case True
  then show ?thesis by simp
next
  case False
  define x :: rat where "x = of_int n"
  have nz: "x \<noteq> 0" using False by (simp add: x_def)
  have "\<bar>x\<bar> = of_int \<bar>n\<bar>" by (simp add: x_def)
  also have "\<dots> < of_int (2 ^ p)" using assms(1) by (simp only: of_int_less_iff)
  also have "\<dots> = pow2 (int p)" by (simp add: pow2_nat)
  finally have "\<bar>x\<bar> < pow2 (int p)" .
  then have "pow2 (expo x) < pow2 (int p)" using expo_bounds(1) [OF nz] by linarith
  then have "expo x < int p" by (simp add: pow2_less_iff)
  then have "max (expo x - int p + 1) qmin \<le> 0" using assms(2) by simp
  moreover have "x = of_int n * pow2 0" by (simp add: x_def)
  ultimately have "binary p qmin x = x" by (rule binary_fix [rotated])
  then show ?thesis by (simp add: x_def)
qed

lemma binary_idem_pos:
  assumes p: "0 < p" and x: "0 < x"
  shows "binary p qmin (binary p qmin x) = binary p qmin x"
proof -
  define m where "m = max (expo x - int p + 1) qmin"
  define k where "k = round_half_even (x / pow2 m)"
  define r where "r = binary p qmin x"
  have nx: "x \<noteq> 0" using x by simp
  have r: "r = of_int k * pow2 m" unfolding r_def k_def m_def using nx by (rule binary_grid)
  have rg: "r = grid (pow2 m) x" using nx by (simp add: r_def binary_def m_def)
  have r0: "0 \<le> r" unfolding r_def using x by (intro binary_nonneg) simp
  have xb: "x < pow2 (expo x + 1)" using expo_bounds(2) [OF nx] x by simp
  have "binary p qmin r = r"
  proof (cases "r = 0")
    case True
    then show ?thesis by simp
  next
    case False
    then have rpos: "0 < r" using r0 by simp
    show ?thesis
    proof (cases "m \<le> expo x + 1")
      case ge: False
      then have "expo x + 1 \<le> m - 1" by simp
      then have "pow2 (expo x + 1) \<le> pow2 (m - 1)" by (rule pow2_mono)
      also have "\<dots> = pow2 m / 2" using pow2_Suc [of "m - 1"] by simp
      finally have "x < pow2 m / 2" using xb by simp
      then have "x / pow2 m < 1 / 2" by (simp add: field_simps)
      moreover have "0 \<le> x / pow2 m" using x by simp
      then have "\<bar>x / pow2 m\<bar> = x / pow2 m" by (rule abs_of_nonneg)
      ultimately have "\<bar>x / pow2 m\<bar> < 1 / 2" by (simp only:)
      then have "\<bar>x / pow2 m - of_int 0\<bar> < 1 / 2" by simp
      then have "k = 0" unfolding k_def by (rule round_half_even_unique)
      then show ?thesis using r rpos by simp
    next
      case le: True
      define B where "B = pow2 (expo x + 1)"
      have gB: "grid (pow2 m) B = B" using grid_pow2 [OF le, of 1] by (simp add: B_def)
      have "r \<le> grid (pow2 m) B" unfolding rg using xb by (simp add: grid_mono B_def)
      then have rB: "r \<le> B" using gB by simp
      show ?thesis
      proof (cases "r = B")
        case True
        have eB: "expo r = expo x + 1"
          unfolding True B_def by (rule expo_unique) (simp_all add: pow2_strict_mono)
        have "qmin \<le> m" by (simp add: m_def)
        then have "max (expo r - int p + 1) qmin \<le> expo x + 1" using eB le p by simp
        moreover have "r = of_int 1 * pow2 (expo x + 1)" using True by (simp add: B_def)
        ultimately show ?thesis by (rule binary_fix [rotated])
      next
        case ne: False
        then have "r < pow2 (expo x + 1)" using rB by (simp add: B_def)
        moreover have "pow2 (expo r) \<le> r" using expo_bounds(1) [OF False] rpos by simp
        ultimately have "pow2 (expo r) < pow2 (expo x + 1)" by linarith
        then have "expo r \<le> expo x" by (simp add: pow2_less_iff)
        then have "max (expo r - int p + 1) qmin \<le> m" by (simp add: m_def)
        with r show ?thesis by (rule binary_fix)
      qed
    qed
  qed
  then show ?thesis by (simp add: r_def)
qed

lemma binary_idem:
  assumes "0 < p"
  shows "binary p qmin (binary p qmin x) = binary p qmin x"
proof -
  consider "0 < x" | "x = 0" | "0 < - x" by linarith
  then show ?thesis
  proof cases
    case 1
    with assms show ?thesis by (rule binary_idem_pos)
  next
    case 2
    then show ?thesis by simp
  next
    case 3
    with assms have "binary p qmin (binary p qmin (- x)) = binary p qmin (- x)"
      by (rule binary_idem_pos)
    then show ?thesis by (simp add: binary_minus)
  qed
qed

lemma binary_near:
  assumes "x \<noteq> 0"
  shows "\<bar>binary p qmin x - x\<bar> \<le> pow2 (max (expo x - int p + 1) qmin) / 2"
proof -
  define q where "q = pow2 (max (expo x - int p + 1) qmin)"
  define k :: rat where "k = of_int (round_half_even (x / q))"
  have q: "0 < q" by (simp add: q_def)
  have "\<bar>x / q - k\<bar> \<le> 1 / 2" unfolding k_def by (rule round_half_even_near)
  then have a: "\<bar>x / q - k\<bar> * q \<le> 1 / 2 * q" using q by (simp only: mult_le_cancel_right_pos)
  have b: "\<bar>x / q - k\<bar> * q = \<bar>k * q - x\<bar>"
  proof -
    have "\<bar>x / q - k\<bar> * q = \<bar>x / q - k\<bar> * \<bar>q\<bar>" using q by simp
    also have "\<dots> = \<bar>(x / q - k) * q\<bar>" by (simp only: abs_mult)
    also have "(x / q - k) * q = x - k * q" using q by (simp add: field_simps)
    finally show ?thesis by (simp add: abs_minus_commute)
  qed
  have c: "binary p qmin x = k * q" using binary_grid [OF assms] by (simp add: k_def q_def)
  from a have "\<bar>k * q - x\<bar> \<le> 1 / 2 * q" unfolding b .
  then have "\<bar>binary p qmin x - x\<bar> \<le> q / 2" unfolding c by simp
  then show ?thesis unfolding q_def .
qed

lemma binary64_0 [simp]: "binary64 0 = 0"
  by (simp add: binary64_def)

lemma binary32_0 [simp]: "binary32 0 = 0"
  by (simp add: binary32_def)

lemma binary64_mono: "x \<le> y \<Longrightarrow> binary64 x \<le> binary64 y"
  unfolding binary64_def by (rule binary_mono) simp


lemma binary64_idem [simp]: "binary64 (binary64 x) = binary64 x"
  unfolding binary64_def by (rule binary_idem) simp

lemma binary32_idem [simp]: "binary32 (binary32 x) = binary32 x"
  unfolding binary32_def by (rule binary_idem) simp


lemma binary64_int: "\<bar>n\<bar> < 2 ^ 53 \<Longrightarrow> binary64 (of_int n) = of_int n"
  unfolding binary64_def by (rule binary_int) simp_all


lemma binary_eval:
  assumes "pow2 e \<le> \<bar>x\<bar>" and "\<bar>x\<bar> < pow2 (e + 1)"
    and "\<bar>x / pow2 (max (e - int p + 1) qmin) - of_int k\<bar> < 1 / 2"
  shows "binary p qmin x = of_int k * pow2 (max (e - int p + 1) qmin)"
proof -
  have e: "expo x = e" using assms(1,2) by (rule expo_unique)
  have "0 < \<bar>x\<bar>" using assms(1) pow2_pos [of e] by linarith
  then have nz: "x \<noteq> 0" by simp
  have "round_half_even (x / pow2 (max (e - int p + 1) qmin)) = k"
    using assms(3) by (rule round_half_even_unique)
  then show ?thesis using binary_grid [OF nz, of p qmin] e by simp
qed

lemma binary64_eval:
  assumes "pow2 e \<le> \<bar>x\<bar>" and "\<bar>x\<bar> < pow2 (e + 1)"
    and "\<bar>x / pow2 (max (e - 52) (- 1074)) - of_int k\<bar> < 1 / 2"
  shows "binary64 x = of_int k * pow2 (max (e - 52) (- 1074))"
  using binary_eval [of e x 53 "- 1074" k] assms by (simp add: binary64_def)










lemma binary64_pow2:
  assumes "- 1074 \<le> e"
  shows "binary64 (pow2 e) = pow2 e"
proof -
  have e: "expo (pow2 e) = e" by (rule expo_unique) (simp_all add: pow2_strict_mono)
  have "pow2 e = of_int 1 * pow2 e" by simp
  moreover have "max (expo (pow2 e) - int 53 + 1) (- 1074) \<le> e" using assms e by simp
  ultimately have "binary 53 (- 1074) (pow2 e) = pow2 e" by (rule binary_fix)
  then show ?thesis by (simp add: binary64_def)
qed

lemma binary64_rel:
  assumes "pow2 (- 1022) \<le> \<bar>x\<bar>"
  shows "\<bar>binary64 x - x\<bar> \<le> \<bar>x\<bar> / 2 ^ 53"
proof -
  have "0 < \<bar>x\<bar>" using assms pow2_pos [of "- 1022"] by linarith
  then have nz: "x \<noteq> 0" by simp
  have "pow2 (- 1022) < pow2 (expo x + 1)" using assms expo_bounds(2) [OF nz] by linarith
  then have e: "- 1022 \<le> expo x" by (simp add: pow2_less_iff)
  then have m: "max (expo x - int 53 + 1) (- 1074) = expo x - 52" by simp
  have near: "\<bar>binary 53 (- 1074) x - x\<bar> \<le> pow2 (max (expo x - int 53 + 1) (- 1074)) / 2"
    using nz by (rule binary_near)
  have "\<bar>binary64 x - x\<bar> \<le> pow2 (expo x - 52) / 2"
    using near unfolding m binary64_def .
  also have "pow2 (expo x - 52) = pow2 (expo x) / 2 ^ 52"
    unfolding pow2_diff using pow2_nat [of 52] by simp
  finally have "\<bar>binary64 x - x\<bar> \<le> pow2 (expo x) / 2 ^ 52 / 2" .
  moreover have "pow2 (expo x) / 2 ^ 52 / 2 \<le> \<bar>x\<bar> / 2 ^ 53"
    using expo_bounds(1) [OF nz] by simp
  ultimately show ?thesis by linarith
qed

lemma percent_near:
  assumes "x = 0 \<or> pow2 (- 1022) \<le> x"
  shows "\<exists>k. py_round (binary64 (binary64 x * 100)) 1 = binary64 (of_int k / 10) \<and>
             \<bar>of_int k / 10 - x * 100\<bar> \<le> 1 / 20 + x * 100 / 2 ^ 51"
proof -
  define y where "y = binary64 x"
  define z where "z = binary64 (y * 100)"
  define k where "k = round_half_even (z * 10)"
  have run: "py_round (binary64 (binary64 x * 100)) 1 = binary64 (of_int k / 10)"
    by (simp add: py_round_def k_def z_def y_def)
  have kz: "\<bar>z * 10 - of_int k\<bar> \<le> 1 / 2" unfolding k_def by (rule round_half_even_near)
  have "\<bar>of_int k / 10 - x * 100\<bar> \<le> 1 / 20 + x * 100 / 2 ^ 51"
  proof (cases "x = 0")
    case True
    then have "z = 0" by (simp add: z_def y_def)
    then show ?thesis using kz True by simp
  next
    case False
    then have lo: "pow2 (- 1022) \<le> x" using assms by simp
    have xpos: "0 < x" using lo pow2_pos [of "- 1022"] by linarith
    have ax: "\<bar>x\<bar> = x" using xpos by simp
    have yx: "\<bar>y - x\<bar> \<le> x / 2 ^ 53" using binary64_rel [of x] lo ax by (simp add: y_def)
    have "binary64 (pow2 (- 1022)) \<le> binary64 x" using lo by (rule binary64_mono)
    then have ylo: "pow2 (- 1022) \<le> y" by (simp add: y_def binary64_pow2)
    have ypos: "0 < y" using ylo pow2_pos [of "- 1022"] by linarith
    have "pow2 (- 1022) \<le> \<bar>y * 100\<bar>" using ylo ypos by simp
    then have "\<bar>binary64 (y * 100) - y * 100\<bar> \<le> \<bar>y * 100\<bar> / 2 ^ 53" by (rule binary64_rel)
    then have zy: "\<bar>z - y * 100\<bar> \<le> y * 100 / 2 ^ 53" using ypos by (simp add: z_def)
    have p53: "(2::rat) ^ 53 = 9007199254740992" and p51: "(2::rat) ^ 51 = 2251799813685248"
      by simp_all
    have k1: "of_int k \<le> z * 10 + 1 / 2" and k2: "z * 10 - 1 / 2 \<le> of_int k"
      using kz by (simp_all only: abs_le_iff) linarith+
    have y1: "y \<le> x + x / 9007199254740992" and y2: "x - x / 9007199254740992 \<le> y"
      using yx unfolding p53 by (simp_all only: abs_le_iff) linarith+
    have z1: "z \<le> y * 100 + y * 100 / 9007199254740992"
      and z2: "y * 100 - y * 100 / 9007199254740992 \<le> z"
      using zy unfolding p53 by (simp_all only: abs_le_iff) linarith+
    have "of_int k / 10 - x * 100 \<le> 1 / 20 + x * 100 / 2251799813685248"
      using k1 y1 z1 xpos by linarith
    moreover have "- (of_int k / 10 - x * 100) \<le> 1 / 20 + x * 100 / 2251799813685248"
      using k2 y2 z2 xpos by linarith
    ultimately show ?thesis unfolding p51 by (simp only: abs_le_iff)
  qed
  with run show ?thesis by blast
qed

lemma quot_23_80: "binary64 (23 / 80) = 2589569785738035 / 9007199254740992"
  using binary64_eval [of "- 2" "23 / 80" 5179139571476070] by (simp add: pow2_def)

lemma prod_23_80: "binary64 (2589569785738035 / 9007199254740992 * 100) = 8092405580431359 / 281474976710656"
  using binary64_eval [of 4 "2589569785738035 / 9007199254740992 * 100" 8092405580431359]
  by (simp add: pow2_def)

lemma tenths_23_80: "round_half_even (8092405580431359 / 281474976710656 * 10) = 287"
  by (rule round_half_even_unique) simp

lemma double_287_10: "binary64 (287 / 10) = 8078331831595827 / 281474976710656"
  using binary64_eval [of 4 "287 / 10" 8078331831595827] by (simp add: pow2_def)

lemma double_288_10: "binary64 (288 / 10) = 8106479329266893 / 281474976710656"
  using binary64_eval [of 4 "288 / 10" 8106479329266893] by (simp add: pow2_def)

lemma py_round_1: "py_round x 1 = binary64 (of_int (round_half_even (x * 10)) / 10)"
  by (simp add: py_round_def)

lemma percent_23_80: "py_round (binary64 (binary64 (23 / 80) * 100)) 1 = binary64 (287 / 10)"
  unfolding quot_23_80 prod_23_80 py_round_1 tenths_23_80 by simp

lemma quot_5_7: "binary64 (5 / 7) = 6433713753386423 / 9007199254740992"
  using binary64_eval [of "- 1" "5 / 7" 6433713753386423] by (simp add: pow2_def)

lemma prod_5_7: "binary64 (6433713753386423 / 9007199254740992 * 100) = 5026338869833143 / 70368744177664"
  using binary64_eval [of 6 "6433713753386423 / 9007199254740992 * 100" 5026338869833143]
  by (simp add: pow2_def)

lemma tenths_5_7: "round_half_even (5026338869833143 / 70368744177664 * 10) = 714"
  by (rule round_half_even_unique) simp

lemma percent_5_7: "py_round (binary64 (binary64 (5 / 7) * 100)) 1 = binary64 (714 / 10)"
  unfolding quot_5_7 prod_5_7 py_round_1 tenths_5_7 by simp

lemma double_714_10: "binary64 (714 / 10) = 2512164167142605 / 35184372088832"
  using binary64_eval [of 6 "714 / 10" 5024328334285210] by (simp add: pow2_def)

section \<open>Streak bookkeeping\<close>

lemma find_map_upd:
  "find (\<lambda>h. h_id h = i) (map (\<lambda>h. if h_id h = i then f h else h) hs) =
     map_option f (find (\<lambda>h. h_id h = i) hs)"
  if "\<And>h. h_id (f h) = h_id h"
  using that by (induction hs) auto

lemma get_habit_update_streak:
  assumes "get_habit habit_id db = Some h"
  shows "\<exists>db'. update_streak habit_id completed db =
            Inr (db', (if completed then streak h + 1 else 0), completed) \<and>
          get_habit habit_id db' =
            Some (h\<lparr>streak := (if completed then streak h + 1 else 0),
                    max_streak := (if completed then max (max_streak h) (streak h + 1)
                                   else max_streak h)\<rparr>)"
  using assms
  by (simp add: update_streak_def get_habit_def Let_def find_map_upd)

text \<open>
  C3. For a stored habit with a non-negative \<open>max_streak\<close>, \<^verbatim>\<open>update_streak\<close> succeeds,
  returns the new streak, which is the old streak plus one when \<open>completed\<close> and zero
  otherwise, and stores it together with the new maximum
  \<open>max old_max new_streak\<close>; when not completed the stored maximum is the old one.
\<close>

theorem update_streak_spec:
  assumes "get_habit habit_id db = Some h" and "0 \<le> max_streak h"
  shows "\<exists>db' h'. update_streak habit_id completed db =
            Inr (db', (if completed then streak h + 1 else 0), completed) \<and>
          get_habit habit_id db' = Some h' \<and>
          streak h' = (if completed then streak h + 1 else 0) \<and>
          max_streak h' = max (max_streak h) (streak h') \<and>
          (\<not> completed \<longrightarrow> streak h' = 0 \<and> max_streak h' = max_streak h)"
proof -
  from get_habit_update_streak [OF assms(1), of completed]
  obtain db' where
    run: "update_streak habit_id completed db =
            Inr (db', (if completed then streak h + 1 else 0), completed)"
    and stored: "get_habit habit_id db' =
            Some (h\<lparr>streak := (if completed then streak h + 1 else 0),
                    max_streak := (if completed then max (max_streak h) (streak h + 1)
                                   else max_streak h)\<rparr>)"
    by blast
  show ?thesis
    using run stored assms(2) by (cases completed) auto
qed

lemma update_streak_frame:
  assumes "update_streak habit_id completed db = Inr (db', r)"
  shows "habit_logs db' = habit_logs db" "pending_notifications db' = pending_notifications db"
    "marathon_participants db' = marathon_participants db" "users db' = users db"
    "log_writes db' = log_writes db" "habit_logs_seq db' = habit_logs_seq db"
  using assms by (auto simp: update_streak_def Let_def split: option.splits)

lemma find_Some_mem: "find P xs = Some x \<Longrightarrow> x \<in> set xs \<and> P x"
  by (induction xs) (auto split: if_splits)

lemma update_streak_inv:
  assumes "streak_inv db" and "update_streak habit_id completed db = Inr (db', r)"
  shows "streak_inv db'"
proof -
  obtain row where row: "find (\<lambda>h. h_id h = habit_id) (habits db) = Some row"
    using assms(2) by (auto simp: update_streak_def split: option.splits)
  then have "row \<in> set (habits db)" by (simp add: find_Some_mem)
  then have "0 \<le> streak row" "streak row \<le> max_streak row"
    using assms(1) by (auto simp: streak_inv_def list_all_iff)
  then show ?thesis
    using assms row
    by (auto simp: update_streak_def streak_inv_def Let_def list_all_iff)
qed

lemma update_marathon_points_habits [simp]:
  "habits (update_marathon_points u m p db) = habits db"
  "habit_logs (update_marathon_points u m p db) = habit_logs db"
  "pending_notifications (update_marathon_points u m p db) = pending_notifications db"
  "users (update_marathon_points u m p db) = users db"
  "log_writes (update_marathon_points u m p db) = log_writes db"
  by (simp_all add: update_marathon_points_def)

lemma streak_inv_points [simp]: "streak_inv (update_marathon_points u m p db) = streak_inv db"
  by (simp add: streak_inv_def)

lemma settle_habit_inv:
  assumes "streak_inv db" and "settle_habit user_id habit entry db = Inr (db', r)"
  shows "streak_inv db'"
  using assms
  by (auto simp: settle_habit_def Let_def split: sum.splits prod.splits if_splits
      dest: update_streak_inv)

lemma settle_habits_inv:
  "streak_inv db \<Longrightarrow> streak_inv (fst (settle_habits lookup user_id hs db))"
proof (induction hs arbitrary: db)
  case Nil
  then show ?case by simp
next
  case (Cons h hs)
  show ?case
  proof (cases "settle_habit user_id h (lookup db (h_id h)) db")
    case (Inl e)
    then show ?thesis using Cons.prems by simp
  next
    case (Inr res)
    obtain db1 line upd where res: "res = (db1, line, upd)" by (cases res) auto
    have "streak_inv db1" using settle_habit_inv [OF Cons.prems] Inr res by blast
    from Cons.IH [OF this] show ?thesis
      using Inr res by (auto split: prod.splits sum.splits)
  qed
qed

lemma end_of_day_users_inv:
  "streak_inv db \<Longrightarrow> streak_inv (fst (end_of_day_users lookup us db))"
proof (induction us arbitrary: db)
  case Nil
  then show ?case by simp
next
  case (Cons u us)
  obtain db1 res where run: "settle_habits (lookup u db) u (get_user_habits u db) db = (db1, res)"
    by (cases "settle_habits (lookup u db) u (get_user_habits u db) db") auto
  have "streak_inv db1"
    using settle_habits_inv [OF Cons.prems, of "lookup u db" u "get_user_habits u db"] run
    by simp
  then have "streak_inv (fst (end_of_day_users lookup us db1))" by (rule Cons.IH)
  moreover have "streak_inv (fst (end_of_day_users lookup us db))"
    using Cons.prems by (rule Cons.IH)
  ultimately show ?case
    using run by (auto simp: Let_def split: prod.splits sum.splits)
qed

text \<open>At a concrete store: a streak of four days (maximum four) becomes five.\<close>

theorem update_streak_spec_witness:
  "get_habit 1 demo_db = Some run_habit \<and> 0 \<le> max_streak run_habit \<and>
   (\<exists>db' h'. update_streak 1 True demo_db = Inr (db', 5, True) \<and>
       get_habit 1 db' = Some h' \<and> streak h' = 5 \<and> max_streak h' = 5)"
proof -
  have h: "get_habit 1 demo_db = Some run_habit"
    by (simp add: get_habit_def demo_db_def run_habit_def)
  have m: "0 \<le> max_streak run_habit" by (simp add: run_habit_def)
  from update_streak_spec [OF h m, of True] h m show ?thesis
    by (auto simp: run_habit_def)
qed

text \<open>
  C4. If the stored habit has \<open>0 \<le> streak \<le> max_streak\<close> before \<^verbatim>\<open>update_streak\<close>, the
  call succeeds and the stored habit has it afterwards, completed or not. If every row
  of the habits table has it before, every row has it after the call and after a whole
  end-of-day run of either scheduler.
\<close>

theorem update_streak_keeps_invariant:
  assumes "get_habit habit_id db = Some h" and "0 \<le> streak h" and "streak h \<le> max_streak h"
  shows "(\<exists>db' h'. update_streak habit_id completed db = Inr (db', streak h', completed) \<and>
            get_habit habit_id db' = Some h' \<and> 0 \<le> streak h' \<and> streak h' \<le> max_streak h' \<and>
            (streak_inv db \<longrightarrow> streak_inv db')) \<and>
         (streak_inv db \<longrightarrow>
            streak_inv (fst (process_end_of_day bot_instance today db)) \<and>
            streak_inv (fst (process_end_of_day_ht bot_instance today db)))"
proof -
  from get_habit_update_streak [OF assms(1), of completed]
  obtain db' where
    run: "update_streak habit_id completed db =
            Inr (db', (if completed then streak h + 1 else 0), completed)"
    and stored: "get_habit habit_id db' =
            Some (h\<lparr>streak := (if completed then streak h + 1 else 0),
                    max_streak := (if completed then max (max_streak h) (streak h + 1)
                                   else max_streak h)\<rparr>)"
    by blast
  have table: "streak_inv db \<longrightarrow> streak_inv db'"
    using update_streak_inv [OF _ run] by blast
  have first: "\<exists>db' h'. update_streak habit_id completed db = Inr (db', streak h', completed) \<and>
            get_habit habit_id db' = Some h' \<and> 0 \<le> streak h' \<and> streak h' \<le> max_streak h' \<and>
            (streak_inv db \<longrightarrow> streak_inv db')"
    using run stored table assms(2,3) by (cases completed) auto
  have second: "streak_inv db \<longrightarrow>
            streak_inv (fst (process_end_of_day bot_instance today db)) \<and>
            streak_inv (fst (process_end_of_day_ht bot_instance today db))"
    by (simp add: process_end_of_day_def process_end_of_day_ht_def end_of_day_users_inv)
  from first second show ?thesis by blast
qed

theorem update_streak_keeps_invariant_witness:
  "get_habit 2 demo_db = Some read_habit \<and> 0 \<le> streak read_habit \<and>
   streak read_habit \<le> max_streak read_habit \<and> streak_inv demo_db \<and>
   (\<exists>db' h'. update_streak 2 False demo_db = Inr (db', streak h', False) \<and>
       get_habit 2 db' = Some h' \<and> 0 \<le> streak h' \<and> streak h' \<le> max_streak h' \<and>
       streak_inv db') \<and>
   streak_inv (fst (process_end_of_day True 0 demo_db)) \<and>
   streak_inv (fst (process_end_of_day_ht True 0 demo_db))"
proof -
  have h: "get_habit 2 demo_db = Some read_habit"
    by (simp add: get_habit_def demo_db_def run_habit_def read_habit_def)
  have s: "0 \<le> streak read_habit" and m: "streak read_habit \<le> max_streak read_habit"
    by (simp_all add: read_habit_def)
  have i: "streak_inv demo_db"
    by (simp add: streak_inv_def demo_db_def run_habit_def read_habit_def)
  from update_streak_keeps_invariant [OF h s m, of False True 0] h s m i show ?thesis
    by blast
qed

section \<open>Daily logs\<close>

lemma find_None_set: "find P xs = None \<longleftrightarrow> (\<forall>x\<in>set xs. \<not> P x)"
  by (induction xs) auto

lemma log_habit_with_update:
  assumes "get_habit habit_id db = Some h" and "get_daily_log habit_id d db = Some existing"
  shows "log_habit_with col habit_id user_id v d db =
         Inr (db\<lparr>habit_logs :=
                   map (\<lambda>r. if l_id r = l_id existing
                             then r\<lparr>l_value := col (binary64 (l_value existing + v)),
                                    l_completed := (if daily_goal h \<le> binary64 (l_value existing + v)
                                                    then 1 else 0)\<rparr>
                             else r) (habit_logs db),
                 log_writes := Suc (log_writes db)\<rparr>,
              \<lparr>r_habit = h, r_new_value = binary64 (l_value existing + v),
               r_daily_goal = daily_goal h,
               r_completed = (if daily_goal h \<le> binary64 (l_value existing + v) then 1 else 0)\<rparr>)"
  using assms unfolding log_habit_with_def get_habit_def get_daily_log_def by (simp add: Let_def)

lemma log_habit_with_insert:
  assumes "get_habit habit_id db = Some h" and "get_daily_log habit_id d db = None"
  shows "log_habit_with col habit_id user_id v d db =
         Inr (db\<lparr>habit_logs := habit_logs db @
                   [\<lparr>l_id = habit_logs_seq db, l_habit_id = habit_id, l_user_id = user_id,
                     log_date = d, l_value = col v,
                     l_completed = (if daily_goal h \<le> v then 1 else 0)\<rparr>],
                 habit_logs_seq := habit_logs_seq db + 1,
                 log_writes := Suc (log_writes db)\<rparr>,
              \<lparr>r_habit = h, r_new_value = v, r_daily_goal = daily_goal h,
               r_completed = (if daily_goal h \<le> v then 1 else 0)\<rparr>)"
  using assms unfolding log_habit_with_def get_habit_def get_daily_log_def by (simp add: Let_def)



lemma find_upd_by_id:
  assumes "find P rs = Some e" and "\<And>r. P (f r) = P r"
  shows "find P (map (\<lambda>r. if l_id r = l_id e then f r else r) rs) = Some (f e)"
  using assms(1)
proof (induction rs)
  case Nil
  then show ?case by simp
next
  case (Cons r rs)
  show ?case
  proof (cases "P r")
    case True
    then have "r = e" using Cons.prems by simp
    then show ?thesis using True assms(2) by simp
  next
    case False
    then have "find P rs = Some e" using Cons.prems by simp
    then have "find P (map (\<lambda>r. if l_id r = l_id e then f r else r) rs) = Some (f e)"
      by (rule Cons.IH)
    then show ?thesis using False assms(2) by simp
  qed
qed


lemma log_habit_with_frame:
  assumes "log_habit_with col habit_id user_id v d db = Inr (db', res)"
  shows "habits db' = habits db" "pending_notifications db' = pending_notifications db"
    "marathon_participants db' = marathon_participants db" "users db' = users db"
    "log_writes db' = Suc (log_writes db)"
  using assms unfolding log_habit_with_def
  by (auto simp: Let_def split: option.splits)

lemma log_habit_frame:
  assumes "log_habit habit_id user_id v d db = Inr (db', res)"
  shows "habits db' = habits db" "pending_notifications db' = pending_notifications db"
    "marathon_participants db' = marathon_participants db" "users db' = users db"
    "log_writes db' = Suc (log_writes db)"
  using log_habit_with_frame [OF assms [unfolded log_habit_def]] by simp_all

lemma log_habit_ht_frame:
  assumes "log_habit_ht habit_id user_id v d db = Inr (db', res)"
  shows "habits db' = habits db" "pending_notifications db' = pending_notifications db"
    "marathon_participants db' = marathon_participants db" "users db' = users db"
    "log_writes db' = Suc (log_writes db)"
  using log_habit_with_frame [OF assms [unfolded log_habit_ht_def]] by simp_all


lemma find_snoc_None: "find P xs = None \<Longrightarrow> find P (xs @ [x]) = (if P x then Some x else None)"
  by (induction xs) (auto split: if_splits)



lemma log_habit_with_row:
  assumes "get_habit habit_id db = Some h"
  shows "\<exists>db' res row. log_habit_with col habit_id user_id v d db = Inr (db', res) \<and>
           get_daily_log habit_id d db' = Some row \<and>
           r_new_value res =
             (case get_daily_log habit_id d db of None \<Rightarrow> v
              | Some e \<Rightarrow> binary64 (l_value e + v)) \<and>
           l_value row = col (r_new_value res) \<and>
           r_completed res = l_completed row \<and>
           r_daily_goal res = daily_goal h \<and>
           l_completed row = (if daily_goal h \<le> r_new_value res then 1 else 0)"
proof (cases "get_daily_log habit_id d db")
  case None
  show ?thesis
    unfolding log_habit_with_insert [OF assms None]
    using None by (simp add: get_daily_log_def find_snoc_None)
next
  case (Some existing)
  let ?nv = "binary64 (l_value existing + v)"
  have "find (\<lambda>r. l_habit_id r = habit_id \<and> log_date r = d)
          (map (\<lambda>r. if l_id r = l_id existing
                     then (\<lambda>r. r\<lparr>l_value := col ?nv,
                            l_completed := (if daily_goal h \<le> ?nv then 1 else 0)\<rparr>) r
                     else r) (habit_logs db)) =
        Some (existing\<lparr>l_value := col ?nv,
                       l_completed := (if daily_goal h \<le> ?nv then 1 else 0)\<rparr>)"
    using Some unfolding get_daily_log_def by (rule find_upd_by_id) simp
  then show ?thesis
    unfolding log_habit_with_update [OF assms Some]
    using Some by (simp add: get_daily_log_def)
qed

lemma log_habit_total:
  assumes "get_habit habit_id db = Some h"
  shows "\<exists>db' res. log_habit habit_id user_id v d db = Inr (db', res)"
  using log_habit_with_row [OF assms, of "\<lambda>x. x" user_id v d] unfolding log_habit_def by blast



lemma day_value_row: "get_daily_log habit_id d db = Some row \<Longrightarrow> day_value habit_id d db = l_value row"
  by (simp add: day_value_def)





section \<open>Deltas accepted by the handlers\<close>











lemma get_habit_points [simp]:
  "get_habit i (update_marathon_points u m p db) = get_habit i db"
  by (simp add: get_habit_def)

section \<open>Answering a reminder\<close>

lemma handler_pending:
  assumes "get_habit habit_id db = Some h"
  shows "\<exists>db' res. log_habit habit_id user_id v today db = Inr (db', res) \<and>
           pending_notifications (mark_notification_responded user_id habit_id db') =
             map (marked user_id habit_id) (pending_notifications db)"
proof -
  from log_habit_total [OF assms, of user_id v today]
  obtain db' res where run: "log_habit habit_id user_id v today db = Inr (db', res)"
    by blast
  have "pending_notifications db' = pending_notifications db"
    using run by (rule log_habit_frame)
  then have "pending_notifications (mark_notification_responded user_id habit_id db') =
             map (marked user_id habit_id) (pending_notifications db)"
    by (simp add: mark_notification_responded_def marked_def [abs_def])
  with run show ?thesis by blast
qed

text \<open>
  C2 (amended). A log write through any of the four log handlers for a stored habit
  succeeds and marks as responded exactly the unresolved ledger entries of that user
  that refer to the logged habit; every other entry, also one of the same user for
  another habit, is left as it was.
\<close>

theorem log_marks_same_habit_only:
  assumes "get_habit habit_id db = Some h"
  shows "(\<exists>db'. log_boolean user_id habit_id b today db = Inr db' \<and>
            pending_notifications db' = map (marked user_id habit_id) (pending_notifications db)) \<and>
         (\<exists>db'. log_numeric user_id habit_id v today db = Inr db' \<and>
            pending_notifications db' = map (marked user_id habit_id) (pending_notifications db)) \<and>
         (\<exists>db'. log_custom_value user_id habit_id (Some v) today db = Inr db' \<and>
            pending_notifications db' = map (marked user_id habit_id) (pending_notifications db)) \<and>
         (\<exists>db'. notification_response user_id habit_id v today db = Inr db' \<and>
            pending_notifications db' = map (marked user_id habit_id) (pending_notifications db))"
proof -
  from handler_pending [OF assms, of user_id "of_int b" today]
  have 1: "\<exists>db'. log_boolean user_id habit_id b today db = Inr db' \<and>
            pending_notifications db' = map (marked user_id habit_id) (pending_notifications db)"
    unfolding log_boolean_def by auto
  from handler_pending [OF assms, of user_id v today]
  obtain db1 res where
    run: "log_habit habit_id user_id v today db = Inr (db1, res)" and
    pend: "pending_notifications (mark_notification_responded user_id habit_id db1) =
             map (marked user_id habit_id) (pending_notifications db)"
    by blast
  have 2: "\<exists>db'. log_numeric user_id habit_id v today db = Inr db' \<and>
            pending_notifications db' = map (marked user_id habit_id) (pending_notifications db)"
    unfolding log_numeric_def using run pend by simp
  have 3: "\<exists>db'. log_custom_value user_id habit_id (Some v) today db = Inr db' \<and>
            pending_notifications db' = map (marked user_id habit_id) (pending_notifications db)"
    unfolding log_custom_value_def using run pend by simp
  have 4: "\<exists>db'. notification_response user_id habit_id v today db = Inr db' \<and>
            pending_notifications db' = map (marked user_id habit_id) (pending_notifications db)"
    unfolding notification_response_def using run pend by simp
  from 1 2 3 4 show ?thesis by blast
qed

theorem log_marks_same_habit_only_witness:
  "get_habit 1 db_reminded = Some run_habit \<and>
   (\<exists>db'. notification_response 7 1 3 10 db_reminded = Inr db' \<and>
      map responded (pending_notifications db') = [1])"
proof -
  have h: "get_habit 1 db_reminded = Some run_habit"
    by (simp add: get_habit_def db_reminded_def demo_db_def run_habit_def)
  have p: "map responded (map (marked 7 1) (pending_notifications db_reminded)) = [1]"
    by (simp add: db_reminded_def marked_def)
  from log_marks_same_habit_only [OF h, of 7 0 10 3, THEN conjunct2, THEN conjunct2, THEN conjunct2]
  obtain db' where "notification_response 7 1 3 10 db_reminded = Inr db'"
    "pending_notifications db' = map (marked 7 1) (pending_notifications db_reminded)"
    by blast
  with h p show ?thesis by auto
qed

text \<open>
  C2 as stated fails: the consolidated reminder for habits 1 and 2 of user 7 records one
  entry, for habit 1; the user answers for habit 2, and the entry stays unresolved.
\<close>

theorem other_habit_counterexample:
  "send_consolidated_notification True (Some 55) 100 7 (get_user_habits 7 demo_db) demo_db =
     db_reminded \<and>
   log_boolean 7 2 1 10 db_reminded = Inr db_answered \<and>
   map p_user_id (pending_notifications db_answered) = [7] \<and>
   map responded (pending_notifications db_answered) = [0]"
  by (simp add: send_consolidated_notification_def create_pending_notification_ht_def
      get_user_habits_def log_boolean_def log_habit_def log_habit_with_def
      mark_notification_responded_def
      db_reminded_def db_answered_def demo_db_def run_habit_def read_habit_def Let_def)

section \<open>The expiry sweep\<close>

lemma expire_each_pending:
  "pending_notifications (expire_each today ns db) = pending_notifications db"
proof (induction ns arbitrary: db)
  case Nil
  then show ?case by simp
next
  case (Cons n ns)
  show ?case
  proof (cases "log_habit (p_habit_id n) (p_user_id n) 0 today db")
    case (Inl e)
    then show ?thesis using Cons.IH by simp
  next
    case (Inr r)
    obtain db' res where r: "r = (db', res)" by (cases r) auto
    have "pending_notifications db' = pending_notifications db"
      using Inr r log_habit_frame(2) by blast
    then show ?thesis using Inr r Cons.IH [of db'] by simp
  qed
qed

lemma zero_fill_pending:
  "pending_notifications (zero_fill today user_id lg hs db) = pending_notifications db"
proof (induction hs arbitrary: db)
  case Nil
  then show ?case by simp
next
  case (Cons h hs)
  show ?case
  proof (cases "log_habit_ht (h_id h) user_id 0 today db")
    case (Inl e)
    then show ?thesis using Cons.IH by simp
  next
    case (Inr r)
    obtain db' res where r: "r = (db', res)" by (cases r) auto
    have "pending_notifications db' = pending_notifications db"
      using Inr r log_habit_ht_frame(2) by blast
    then show ?thesis using Inr r Cons.IH [of db'] Cons.IH [of db] by simp
  qed
qed

lemma expire_each_ht_pending:
  "pending_notifications (expire_each_ht today ns db) = pending_notifications db"
  by (induction ns arbitrary: db) (simp_all add: Let_def zero_fill_pending)

lemma sweep_pending:
  "pending_notifications (check_expired_notifications now_sel now_del today db) =
     filter (\<lambda>n. \<not> (responded n = 1 \<or> expires_at n < now_del)) (pending_notifications db)"
  "pending_notifications (check_expired_notifications_ht now_sel now_del today db) =
     filter (\<lambda>n. \<not> (responded n = 1 \<or> expires_at n < now_del)) (pending_notifications db)"
  by (simp_all add: check_expired_notifications_def check_expired_notifications_ht_def
      delete_expired_notifications_def expire_each_pending expire_each_ht_pending)

lemma nothing_expired_after_sweep:
  assumes "t \<le> now_del"
  shows "get_expired_notifications t (check_expired_notifications now_sel now_del today db) = []"
    and "get_expired_notifications t (check_expired_notifications_ht now_sel now_del today db) = []"
  using assms by (auto simp: get_expired_notifications_def sweep_pending filter_empty_conv)

lemma delete_expired_twice:
  "delete_expired_notifications now (delete_expired_notifications now db) =
     delete_expired_notifications now db"
  by (simp add: delete_expired_notifications_def)

lemma later_sweep_writes_nothing:
  assumes "t \<le> now_del"
  shows "check_expired_notifications t d today' (check_expired_notifications now_sel now_del today db) =
           delete_expired_notifications d (check_expired_notifications now_sel now_del today db)"
    and "check_expired_notifications_ht t d today' (check_expired_notifications_ht now_sel now_del today db) =
           delete_expired_notifications d (check_expired_notifications_ht now_sel now_del today db)"
  using nothing_expired_after_sweep [OF assms]
  by (simp_all add: check_expired_notifications_def [of t] check_expired_notifications_ht_def [of t])

lemma delete_after_sweep:
  "delete_expired_notifications now (check_expired_notifications now_sel now today db) =
     check_expired_notifications now_sel now today db"
  "delete_expired_notifications now (check_expired_notifications_ht now_sel now today db) =
     check_expired_notifications_ht now_sel now today db"
  by (simp_all add: check_expired_notifications_def check_expired_notifications_ht_def
      delete_expired_twice)

text \<open>
  C7. A second expiry sweep at the same \<open>now\<close>, with nothing written in between, changes
  nothing: the store after it is the store after the first sweep, for both schedulers,
  so it executes no further write on the log table. (The first sweep's deletion has
  removed every entry the second one could select.)
\<close>

theorem sweep_idempotent:
  "check_expired_notifications now now today (check_expired_notifications now now today db) =
     check_expired_notifications now now today db \<and>
   check_expired_notifications_ht now now today (check_expired_notifications_ht now now today db) =
     check_expired_notifications_ht now now today db \<and>
   log_writes (check_expired_notifications now now today
                 (check_expired_notifications now now today db)) =
     log_writes (check_expired_notifications now now today db) \<and>
   log_writes (check_expired_notifications_ht now now today
                 (check_expired_notifications_ht now now today db)) =
     log_writes (check_expired_notifications_ht now now today db)"
  by (simp add: later_sweep_writes_nothing delete_after_sweep)

theorem sweep_idempotent_witness:
  "log_writes db_overdue = 0 \<and>
   log_writes (check_expired_notifications 1000 1000 10 db_overdue) = 1 \<and>
   log_writes (check_expired_notifications 1000 1000 10
                 (check_expired_notifications 1000 1000 10 db_overdue)) = 1 \<and>
   log_writes (check_expired_notifications_ht 1000 1000 10 db_overdue) = 4 \<and>
   log_writes (check_expired_notifications_ht 1000 1000 10
                 (check_expired_notifications_ht 1000 1000 10 db_overdue)) = 4"
proof -
  have a: "log_writes (check_expired_notifications 1000 1000 10 db_overdue) = 1"
    by (simp add: check_expired_notifications_def get_expired_notifications_def
        delete_expired_notifications_def log_habit_def log_habit_with_def db_overdue_def
        demo_db_def run_habit_def read_habit_def Let_def)
  have b: "log_writes (check_expired_notifications_ht 1000 1000 10 db_overdue) = 4"
    by (simp add: check_expired_notifications_ht_def get_expired_notifications_def
        delete_expired_notifications_def get_user_habits_def get_daily_logs_batch_def
        log_habit_ht_def log_habit_with_def db_overdue_def demo_db_def run_habit_def
        read_habit_def Let_def)
  have c: "log_writes db_overdue = 0" by (simp add: db_overdue_def demo_db_def)
  from sweep_idempotent [of 1000 10 db_overdue] a b c show ?thesis by simp
qed

lemma selected_are_deleted:
  assumes "now_sel \<le> now_del"
  shows "filter (\<lambda>n. n \<in> set (get_expired_notifications now_sel db))
           (filter (\<lambda>n. \<not> (responded n = 1 \<or> expires_at n < now_del)) ps) = []"
  using assms by (auto simp: filter_empty_conv get_expired_notifications_def)

text \<open>
  C10. After a sweep of either scheduler, no ledger row with \<open>responded = 1\<close> or with
  \<open>expires_at\<close> before the time of the final deletion is left. If the clock did not run
  backwards between selection and deletion, none of the entries the sweep selected is
  left, whatever happened while it was processed, so no later sweep selects it again.
\<close>

theorem sweep_clears_ledger:
  "filter (\<lambda>n. responded n = 1 \<or> expires_at n < now_del)
     (pending_notifications (check_expired_notifications now_sel now_del today db)) = [] \<and>
   filter (\<lambda>n. responded n = 1 \<or> expires_at n < now_del)
     (pending_notifications (check_expired_notifications_ht now_sel now_del today db)) = [] \<and>
   (now_sel \<le> now_del \<longrightarrow>
      filter (\<lambda>n. n \<in> set (get_expired_notifications now_sel db))
        (pending_notifications (check_expired_notifications now_sel now_del today db)) = [] \<and>
      filter (\<lambda>n. n \<in> set (get_expired_notifications now_sel db))
        (pending_notifications (check_expired_notifications_ht now_sel now_del today db)) = [] \<and>
      filter (\<lambda>n. n \<in> set (get_expired_notifications now_sel db))
        (get_expired_notifications t (check_expired_notifications now_sel now_del today db)) = [] \<and>
      filter (\<lambda>n. n \<in> set (get_expired_notifications now_sel db))
        (get_expired_notifications t (check_expired_notifications_ht now_sel now_del today db)) = [])"
proof -
  have a: "filter (\<lambda>n. responded n = 1 \<or> expires_at n < now_del)
     (pending_notifications (check_expired_notifications now_sel now_del today db)) = []"
    by (auto simp: sweep_pending filter_empty_conv)
  have b: "filter (\<lambda>n. responded n = 1 \<or> expires_at n < now_del)
     (pending_notifications (check_expired_notifications_ht now_sel now_del today db)) = []"
    by (auto simp: sweep_pending filter_empty_conv)
  have c: "filter (\<lambda>n. n \<in> set (get_expired_notifications now_sel db))
        (pending_notifications (check_expired_notifications now_sel now_del today db)) = []"
    and d: "filter (\<lambda>n. n \<in> set (get_expired_notifications now_sel db))
        (pending_notifications (check_expired_notifications_ht now_sel now_del today db)) = []"
    if "now_sel \<le> now_del"
    using selected_are_deleted [OF that] by (simp_all add: sweep_pending)
  have e: "filter (\<lambda>n. n \<in> set (get_expired_notifications now_sel db))
        (get_expired_notifications t (check_expired_notifications now_sel now_del today db)) = []"
    if "now_sel \<le> now_del"
    using c [OF that] by (auto simp: filter_empty_conv get_expired_notifications_def [of t])
  have f: "filter (\<lambda>n. n \<in> set (get_expired_notifications now_sel db))
        (get_expired_notifications t (check_expired_notifications_ht now_sel now_del today db)) = []"
    if "now_sel \<le> now_del"
    using d [OF that] by (auto simp: filter_empty_conv get_expired_notifications_def [of t])
  from a b c d e f show ?thesis by blast
qed

text \<open>
  At the sample store the entry for the missing habit 99 makes \<^verbatim>\<open>log_habit\<close> raise; it is
  deleted all the same, and no zero was logged for it.
\<close>

theorem sweep_clears_ledger_witness:
  "(1000::int) \<le> 1001 \<and>
   map p_habit_id (get_expired_notifications 1000 db_overdue) = [99, 1] \<and>
   log_habit 99 7 0 10 db_overdue = Inl TypeError \<and>
   map p_habit_id (pending_notifications (check_expired_notifications 1000 1001 10 db_overdue)) = [2] \<and>
   get_daily_log 99 10 (check_expired_notifications 1000 1001 10 db_overdue) = None \<and>
   filter (\<lambda>n. n \<in> set (get_expired_notifications 1000 db_overdue))
     (pending_notifications (check_expired_notifications 1000 1001 10 db_overdue)) = [] \<and>
   filter (\<lambda>n. n \<in> set (get_expired_notifications 1000 db_overdue))
     (get_expired_notifications 2000 (check_expired_notifications 1000 1001 10 db_overdue)) = []"
proof -
  have le: "(1000::int) \<le> 1001" by simp
  have sel: "map p_habit_id (get_expired_notifications 1000 db_overdue) = [99, 1]"
    by (simp add: get_expired_notifications_def db_overdue_def demo_db_def)
  have err: "log_habit 99 7 0 10 db_overdue = Inl TypeError"
    by (simp add: log_habit_def log_habit_with_def db_overdue_def demo_db_def run_habit_def
        read_habit_def)
  have left: "map p_habit_id
      (pending_notifications (check_expired_notifications 1000 1001 10 db_overdue)) = [2]"
    by (simp add: sweep_pending db_overdue_def demo_db_def)
  have nolog: "get_daily_log 99 10 (check_expired_notifications 1000 1001 10 db_overdue) = None"
    by (simp add: check_expired_notifications_def get_expired_notifications_def
        delete_expired_notifications_def get_daily_log_def log_habit_def log_habit_with_def
        db_overdue_def demo_db_def run_habit_def read_habit_def Let_def)
  from sweep_clears_ledger [of 1001 1000 10 db_overdue 2000] le sel err left nolog
  show ?thesis by blast
qed

section \<open>Statistics of a period\<close>

lemma completed_count:
  "length (filter (\<lambda>entry. l_completed entry \<noteq> 0)
      (sort_key log_date (filter (\<lambda>r. l_habit_id r = habit_id \<and> start_date \<le> log_date r \<and>
                                      log_date r \<le> end_date) rs))) =
   length (filter (\<lambda>r. l_habit_id r = habit_id \<and> start_date \<le> log_date r \<and>
                        log_date r \<le> end_date \<and> l_completed r \<noteq> 0) rs)"
proof -
  have "filter (\<lambda>entry. l_completed entry \<noteq> 0)
      (sort_key log_date (filter (\<lambda>r. l_habit_id r = habit_id \<and> start_date \<le> log_date r \<and>
                                      log_date r \<le> end_date) rs)) =
    sort_key log_date (filter (\<lambda>r. l_habit_id r = habit_id \<and> start_date \<le> log_date r \<and>
                        log_date r \<le> end_date \<and> l_completed r \<noteq> 0) rs)"
    by (simp add: filter_sort conj_commute conj_left_commute cong: conj_cong)
  then show ?thesis by simp
qed

lemma whole_quotient_normal:
  assumes "0 < n" and "0 < t" and "t \<le> 3652059"
  shows "pow2 (- 1022) \<le> of_int n / of_int t"
proof -
  have "pow2 (- 1022) \<le> pow2 (- 22)" by (rule pow2_mono) simp
  also have "pow2 (- 22) = 1 / 4194304" by (simp add: pow2_def)
  also have "\<dots> \<le> 1 / of_int t"
  proof (rule frac_le)
    have "t \<le> 4194304" using assms(3) by simp
    then show "(of_int t :: rat) \<le> 4194304" by (metis of_int_le_iff of_int_numeral)
    show "(0::rat) < of_int t" using assms(2) by simp
  qed simp_all
  also have "\<dots> \<le> of_int n / of_int t"
  proof (rule divide_right_mono)
    have "1 \<le> n" using assms(1) by simp
    then show "(1::rat) \<le> of_int n" by (metis of_int_le_iff of_int_1)
    show "(0::rat) \<le> of_int t" using assms(2) by simp
  qed
  finally show ?thesis .
qed

text \<open>
  C8 (amended). For a stored boolean habit \<^verbatim>\<open>get_habit_stats\<close> returns the number of days of
  the range, the number of logged days of the range with a completed flag, their
  difference as missed days, and as efficiency Python's \<^verbatim>\<open>round\<close> to one decimal of the
  float \<^verbatim>\<open>completed / total_days * 100\<close>: the double nearest to a number of tenths that is
  within 0.05 of the exact percentage, up to the rounding error of the quotient and the
  product (a part in \<open>2\<^sup>5\<^sup>1\<close> of the percentage), for every range a date difference can
  span. It is 0 when there are no days. Five completed days of seven give the double
  nearest to 71.4.
\<close>

theorem boolean_stats_float:
  assumes "get_habit habit_id db = Some h" and "h_type h = Boolean"
  shows "\<exists>st. get_habit_stats py_sum habit_id start_date end_date db = Inr st \<and>
           total_days st = end_date - start_date + 1 \<and>
           completed_days st =
             int (length (filter (\<lambda>r. l_habit_id r = habit_id \<and> start_date \<le> log_date r \<and>
                                      log_date r \<le> end_date \<and> l_completed r \<noteq> 0)
                           (habit_logs db))) \<and>
           missed_days st = total_days st - completed_days st \<and>
           efficiency st =
             (if 0 < total_days st
              then py_round
                     (binary64 (binary64 (of_int (completed_days st) / of_int (total_days st))
                                * 100)) 1
              else 0) \<and>
           (total_days st = 0 \<longrightarrow> efficiency st = 0) \<and>
           (0 < total_days st \<and> total_days st \<le> 3652059 \<longrightarrow>
              (\<exists>k. efficiency st = binary64 (of_int k / 10) \<and>
                 \<bar>of_int k / 10 -
                    (of_int (completed_days st) :: rat) / of_int (total_days st) * 100\<bar>
                   \<le> 1 / 20 +
                      of_int (completed_days st) / of_int (total_days st) * 100 / 2 ^ 51))"
proof -
  define n where "n = int (length (filter (\<lambda>r. l_habit_id r = habit_id \<and>
      start_date \<le> log_date r \<and> log_date r \<le> end_date \<and> l_completed r \<noteq> 0) (habit_logs db)))"
  define t where "t = end_date - start_date + 1"
  define e where "e = (if 0 < t
      then py_round (binary64 (binary64 (of_int n / of_int t) * 100)) 1 else 0)"
  define ls where "ls = sort_key log_date
                 (filter (\<lambda>r. l_habit_id r = habit_id \<and> start_date \<le> log_date r \<and>
                               log_date r \<le> end_date) (habit_logs db))"
  define st where "st = Boolean_stats h t n (t - n) e ls"
  have run: "get_habit_stats py_sum habit_id start_date end_date db = Inr st"
    using assms unfolding get_habit_stats_def get_habit_def Let_def st_def e_def t_def n_def ls_def
    by (simp add: completed_count)
  have sel: "total_days st = t" "completed_days st = n" "missed_days st = t - n"
    "efficiency st = e"
    by (simp_all add: st_def)
  have zero: "t = 0 \<longrightarrow> e = 0" by (simp add: e_def)
  have near: "\<exists>k. e = binary64 (of_int k / 10) \<and>
                 \<bar>of_int k / 10 - (of_int n :: rat) / of_int t * 100\<bar>
                   \<le> 1 / 20 + of_int n / of_int t * 100 / 2 ^ 51"
    if t: "0 < t" "t \<le> 3652059"
  proof -
    have n0: "0 \<le> n" by (simp add: n_def)
    have "of_int n / of_int t = (0::rat) \<or> pow2 (- 1022) \<le> of_int n / of_int t"
    proof (cases "n = 0")
      case True
      then show ?thesis by simp
    next
      case False
      then have "0 < n" using n0 by simp
      then show ?thesis using t by (simp add: whole_quotient_normal)
    qed
    then have "\<exists>k. py_round (binary64 (binary64 (of_int n / of_int t) * 100)) 1 =
                 binary64 (of_int k / 10) \<and>
               \<bar>of_int k / 10 - (of_int n :: rat) / of_int t * 100\<bar>
                 \<le> 1 / 20 + of_int n / of_int t * 100 / 2 ^ 51"
      by (rule percent_near)
    moreover have "e = py_round (binary64 (binary64 (of_int n / of_int t) * 100)) 1"
      using t(1) by (simp add: e_def)
    ultimately show ?thesis by (simp only:)
  qed
  have "total_days st = end_date - start_date + 1" by (simp add: sel t_def)
  moreover have "completed_days st =
             int (length (filter (\<lambda>r. l_habit_id r = habit_id \<and> start_date \<le> log_date r \<and>
                                      log_date r \<le> end_date \<and> l_completed r \<noteq> 0)
                           (habit_logs db)))" by (simp add: sel n_def)
  moreover have "missed_days st = total_days st - completed_days st" by (simp add: sel)
  moreover have "efficiency st =
             (if 0 < total_days st
              then py_round
                     (binary64 (binary64 (of_int (completed_days st) / of_int (total_days st))
                                * 100)) 1
              else 0)" by (simp add: sel e_def)
  moreover have "total_days st = 0 \<longrightarrow> efficiency st = 0" using zero by (simp add: sel)
  moreover have "0 < total_days st \<and> total_days st \<le> 3652059 \<longrightarrow>
              (\<exists>k. efficiency st = binary64 (of_int k / 10) \<and>
                 \<bar>of_int k / 10 -
                    (of_int (completed_days st) :: rat) / of_int (total_days st) * 100\<bar>
                   \<le> 1 / 20 +
                      of_int (completed_days st) / of_int (total_days st) * 100 / 2 ^ 51)"
    using near unfolding sel by blast
  ultimately show ?thesis using run by blast
qed

theorem boolean_stats_float_witness:
  "get_habit 2 db_week = Some read_habit \<and> h_type read_habit = Boolean \<and>
   (\<exists>st. get_habit_stats fold_sum 2 1 7 db_week = Inr st \<and> total_days st = 7 \<and>
      completed_days st = 5 \<and> missed_days st = 2 \<and> efficiency st = binary64 (714 / 10) \<and>
      efficiency st = 2512164167142605 / 35184372088832)"
proof -
  have h: "get_habit 2 db_week = Some read_habit"
    by (simp add: get_habit_def db_week_def demo_db_def run_habit_def read_habit_def)
  have b: "h_type read_habit = Boolean" by (simp add: read_habit_def)
  have n: "int (length (filter (\<lambda>r. l_habit_id r = 2 \<and> 1 \<le> log_date r \<and> log_date r \<le> 7 \<and>
               l_completed r \<noteq> 0) (habit_logs db_week))) = 5"
    by (simp add: db_week_def)
  from boolean_stats_float [OF h b, of fold_sum 1 7]
  obtain st where st: "get_habit_stats fold_sum 2 1 7 db_week = Inr st"
    "total_days st = 7 - 1 + 1"
    "completed_days st =
       int (length (filter (\<lambda>r. l_habit_id r = 2 \<and> 1 \<le> log_date r \<and> log_date r \<le> 7 \<and>
               l_completed r \<noteq> 0) (habit_logs db_week)))"
    "missed_days st = total_days st - completed_days st"
    "efficiency st =
       (if 0 < total_days st
        then py_round
               (binary64 (binary64 (of_int (completed_days st) / of_int (total_days st)) * 100)) 1
        else 0)"
    by blast
  have t: "total_days st = 7" using st(2) by simp
  have c: "completed_days st = 5" using st(3) n by simp
  have e: "efficiency st = binary64 (714 / 10)"
    using st(5) unfolding t c by (simp add: percent_5_7 del: One_nat_def)
  then have e': "efficiency st = 2512164167142605 / 35184372088832"
    by (simp only: double_714_10)
  from h b st(1) t c st(4) e e' show ?thesis by auto
qed

text \<open>
  C8 as stated fails: 23 completed days of 80 are 28.75 percent, which rounds to 28.8
  (the nearest even tenth, and also the upper one); the float product is
  28.749999999999996, and the efficiency returned is the double nearest to 28.7.
\<close>

theorem efficiency_tie_counterexample:
  "get_habit_stats fold_sum 2 1 80 db_quarter = Inr quarter_stats \<and>
   total_days quarter_stats = 80 \<and> completed_days quarter_stats = 23 \<and>
   efficiency quarter_stats = binary64 (287 / 10) \<and>
   (23 :: rat) / 80 * 100 = 2875 / 100 \<and>
   round_half_even (2875 / 100 * 10) = 288 \<and>
   efficiency quarter_stats < 287 / 10 \<and>
   efficiency quarter_stats \<noteq> binary64 (288 / 10)"
proof -
  have run: "get_habit_stats fold_sum 2 1 80 db_quarter = Inr quarter_stats"
    by (simp add: get_habit_stats_def quarter_stats_def db_quarter_def demo_db_def
        run_habit_def read_habit_def percent_23_80 double_287_10 upto.simps Let_def
        del: One_nat_def)
  have e: "efficiency quarter_stats = binary64 (287 / 10)"
    unfolding double_287_10 by (simp add: quarter_stats_def)
  have "\<lfloor>(575::rat) / 2\<rfloor> = 287" by (rule floor_unique) simp_all
  then have r: "round_half_even (2875 / 100 * 10) = 288"
    by (simp add: round_half_even_def Let_def)
  have lt: "efficiency quarter_stats < 287 / 10" by (simp add: quarter_stats_def)
  have ne: "efficiency quarter_stats \<noteq> binary64 (288 / 10)"
    unfolding double_288_10 by (simp add: quarter_stats_def)
  from run e r lt ne show ?thesis by (simp add: quarter_stats_def)
qed

section \<open>Marathon points\<close>

lemma add_points_zero [simp]: "add_points (\<lambda>p. 0) ps = ps"
  by (simp add: add_points_def)

lemma add_points_twice:
  assumes "\<And>p x. k2 (p\<lparr>total_points := x\<rparr>) = k2 p"
  shows "add_points k2 (add_points k1 ps) = add_points (\<lambda>p. k1 p + k2 p) ps"
  using assms by (simp add: add_points_def add.assoc)

lemma credits_upd [simp]: "credits lk u hs (p\<lparr>total_points := x\<rparr>) = credits lk u hs p"
  by (simp add: credits_def)

lemma update_marathon_points_add:
  "marathon_participants (update_marathon_points u m 1 db) =
     add_points (\<lambda>p. if mp_user_id p = u \<and> mp_marathon_id p = m then 1 else 0)
       (marathon_participants db)"
  by (simp add: update_marathon_points_def add_points_def)

lemma update_streak_strip:
  assumes "update_streak habit_id completed db = Inr (db', r)"
  shows "map strip (habits db') = map strip (habits db)"
  using assms unfolding update_streak_def Let_def
  by (auto simp: strip_def split: option.splits)

lemma get_habit_None_iff: "get_habit i db = None \<longleftrightarrow> i \<notin> h_id ` set (habits db)"
  by (auto simp: get_habit_def find_None_set)

lemma strip_ids:
  assumes "map strip xs = map strip ys"
  shows "map h_id xs = map h_id ys"
proof -
  have "map h_id xs = map (h_id \<circ> strip) xs" by (simp add: strip_def comp_def)
  also have "\<dots> = map h_id (map strip xs)" by simp
  also have "\<dots> = map h_id (map strip ys)" using assms by simp
  also have "\<dots> = map h_id ys" by (simp add: strip_def comp_def)
  finally show ?thesis .
qed

lemma strip_known:
  assumes "map strip (habits db') = map strip (habits db)"
  shows "(get_habit i db' = None) = (get_habit i db = None)"
proof -
  have "set (map h_id (habits db')) = set (map h_id (habits db))"
    using strip_ids [OF assms] by simp
  then show ?thesis unfolding get_habit_None_iff by simp
qed

lemma settle_habit_points:
  assumes "get_habit (h_id habit) db \<noteq> None"
  shows "\<exists>db' line upd. settle_habit user_id habit (lk (h_id habit)) db = Inr (db', line, upd) \<and>
           marathon_participants db' =
             add_points (credits lk user_id [habit]) (marathon_participants db) \<and>
           habit_logs db' = habit_logs db \<and> users db' = users db \<and>
           map strip (habits db') = map strip (habits db)"
proof -
  let ?c = "daily_goal habit \<le> (case lk (h_id habit) of None \<Rightarrow> 0 | Some l \<Rightarrow> l_value l)"
  obtain h where h: "get_habit (h_id habit) db = Some h" using assms by auto
  from get_habit_update_streak [OF h, of ?c]
  obtain db1 where
    run: "update_streak (h_id habit) ?c db = Inr (db1, (if ?c then streak h + 1 else 0), ?c)"
    by blast
  note fr = update_streak_frame [OF run] update_streak_strip [OF run]
  consider (unlinked) "marathon_id habit = None" | (zero) "marathon_id habit = Some 0"
    | (missed) m where "marathon_id habit = Some m" "m \<noteq> 0" "\<not> ?c"
    | (reached) m where "marathon_id habit = Some m" "m \<noteq> 0" "?c"
    by (cases "marathon_id habit") auto
  then show ?thesis
  proof cases
    case unlinked
    then have "credits lk user_id [habit] = (\<lambda>p. 0)"
      by (simp add: credits_def credited_def fun_eq_iff)
    then show ?thesis
      unfolding settle_habit_def Let_def run using unlinked fr by simp
  next
    case zero
    then have "credits lk user_id [habit] = (\<lambda>p. 0)"
      by (auto simp: credits_def credited_def fun_eq_iff)
    then show ?thesis
      unfolding settle_habit_def Let_def run using zero fr by simp
  next
    case missed
    then have "credits lk user_id [habit] = (\<lambda>p. 0)"
      by (simp add: credits_def credited_def fun_eq_iff)
    then show ?thesis
      unfolding settle_habit_def Let_def run using missed fr by simp
  next
    case reached
    then have "(\<lambda>p. if mp_user_id p = user_id \<and> mp_marathon_id p = m then 1 else 0) =
          credits lk user_id [habit]"
      by (auto simp: credits_def credited_def fun_eq_iff)
    then show ?thesis
      unfolding settle_habit_def Let_def run using reached fr
      by (simp add: update_marathon_points_add)
  qed
qed

lemma credits_Nil: "credits lk u [] = (\<lambda>p. 0)"
  by (simp add: credits_def fun_eq_iff)

lemma credits_Cons:
  "credits lk u (h # hs) = (\<lambda>p. credits lk u [h] p + credits lk u hs p)"
  by (simp add: credits_def fun_eq_iff)

lemma settle_habits_points:
  assumes "\<And>dbc. habit_logs dbc = habit_logs db \<Longrightarrow> lookup dbc = lookup db"
    and "\<forall>h\<in>set hs. get_habit (h_id h) db \<noteq> None"
  shows "\<exists>db' ls ups. settle_habits lookup user_id hs db = (db', Inr (ls, ups)) \<and>
           marathon_participants db' =
             add_points (credits (lookup db) user_id hs) (marathon_participants db) \<and>
           habit_logs db' = habit_logs db \<and> users db' = users db \<and>
           map strip (habits db') = map strip (habits db)"
  using assms
proof (induction hs arbitrary: db)
  case Nil
  show ?case by (simp add: credits_Nil)
next
  case (Cons h hs)
  have known: "get_habit (h_id h) db \<noteq> None" using Cons.prems(2) by simp
  from settle_habit_points [OF known, of user_id "lookup db"]
  obtain db1 line upd where
    step: "settle_habit user_id h (lookup db (h_id h)) db = Inr (db1, line, upd)" and
    p1: "marathon_participants db1 =
           add_points (credits (lookup db) user_id [h]) (marathon_participants db)" and
    l1: "habit_logs db1 = habit_logs db" and u1: "users db1 = users db" and
    s1: "map strip (habits db1) = map strip (habits db)"
    by blast
  have lk1: "lookup db1 = lookup db" by (rule Cons.prems(1) [OF l1])
  have st1: "lookup dbc = lookup db1" if "habit_logs dbc = habit_logs db1" for dbc
    using Cons.prems(1) [of dbc] that l1 lk1 by auto
  have kn1: "\<forall>h\<in>set hs. get_habit (h_id h) db1 \<noteq> None"
    using Cons.prems(2) strip_known [OF s1] by simp
  from Cons.IH [OF st1 kn1]
  obtain db2 ls ups where
    rest: "settle_habits lookup user_id hs db1 = (db2, Inr (ls, ups))" and
    p2: "marathon_participants db2 =
           add_points (credits (lookup db1) user_id hs) (marathon_participants db1)" and
    l2: "habit_logs db2 = habit_logs db1" and u2: "users db2 = users db1" and
    s2: "map strip (habits db2) = map strip (habits db1)"
    by blast
  have "add_points (credits (lookup db) user_id hs)
          (add_points (credits (lookup db) user_id [h]) (marathon_participants db)) =
        add_points (\<lambda>p. credits (lookup db) user_id [h] p + credits (lookup db) user_id hs p)
          (marathon_participants db)"
    by (rule add_points_twice) simp
  then have "marathon_participants db2 =
          add_points (credits (lookup db) user_id (h # hs)) (marathon_participants db)"
    unfolding p2 p1 lk1 credits_Cons [of _ _ h hs] by simp
  then show ?case using step rest l1 l2 u1 u2 s1 s2 by simp
qed

lemma find_unique:
  assumes "distinct (map k rs)"
  shows "(find (\<lambda>r. k r = a) rs = Some r) = (r \<in> set rs \<and> k r = a)"
  using assms by (induction rs) (auto simp: image_iff)

lemma distinct_day:
  assumes "distinct (map (\<lambda>r. (f r, g r)) xs)"
  shows "distinct (map f (filter (\<lambda>r. P r \<and> g r = c) xs))"
  using assms by (induction xs) (auto simp: image_iff)

lemma batch_lookup:
  assumes "distinct (log_keys db)" and "hid \<in> set ids"
  shows "get_daily_logs_batch ids today db hid = get_daily_log hid today db"
proof -
  let ?rows = "filter (\<lambda>r. l_habit_id r \<in> set ids \<and> log_date r = today) (habit_logs db)"
  let ?pairs = "rev (map (\<lambda>r. (l_habit_id r, r)) ?rows)"
  have d: "distinct (map fst ?pairs)"
    using distinct_day [OF assms(1) [unfolded log_keys_def], of "\<lambda>r. l_habit_id r \<in> set ids" today]
    by (simp add: rev_map [symmetric] comp_def)
  have k: "distinct (map (\<lambda>r. (l_habit_id r, log_date r)) (habit_logs db))"
    using assms(1) by (simp add: log_keys_def)
  have eq: "(map_of ?pairs hid = Some y) = (get_daily_log hid today db = Some y)" for y
  proof -
    have "(get_daily_log hid today db = Some y) =
          (find (\<lambda>r. (l_habit_id r, log_date r) = (hid, today)) (habit_logs db) = Some y)"
      by (simp add: get_daily_log_def)
    also have "\<dots> = (y \<in> set (habit_logs db) \<and> (l_habit_id y, log_date y) = (hid, today))"
      by (rule find_unique [OF k])
    finally have r: "(get_daily_log hid today db = Some y) =
        (y \<in> set (habit_logs db) \<and> l_habit_id y = hid \<and> log_date y = today)" by simp
    have "(map_of ?pairs hid = Some y) = ((hid, y) \<in> set ?pairs)"
      by (rule map_of_eq_Some_iff [OF d])
    also have "\<dots> = (y \<in> set (habit_logs db) \<and> l_habit_id y = hid \<and> log_date y = today)"
      using assms(2) by auto
    finally show ?thesis using r by simp
  qed
  have "map_of ?pairs hid = get_daily_log hid today db"
  proof (cases "get_daily_log hid today db")
    case None
    have "map_of ?pairs hid \<noteq> Some y" for y using eq [of y] None by simp
    then have "map_of ?pairs hid = None" by (cases "map_of ?pairs hid") blast+
    then show ?thesis using None by simp
  next
    case (Some y)
    then show ?thesis using eq [of y] by simp
  qed
  then show ?thesis
    using assms(2) by (auto simp: get_daily_logs_batch_def)
qed

lemma credited_strip [simp]: "credited lk m (strip h) = credited lk m h"
  by (simp add: credited_def strip_def)

lemma credits_strip:
  assumes "map strip hs' = map strip hs"
  shows "credits lk u hs' p = credits lk u hs p"
proof -
  have len: "length (filter (credited lk m) (map strip xs)) = length (filter (credited lk m) xs)"
    for m xs by (induction xs) auto
  have "length (filter (credited lk m) hs') = length (filter (credited lk m) hs)" for m
    using len [of m hs'] len [of m hs] assms by simp
  then show ?thesis by (simp add: credits_def)
qed

lemma user_habits_strip:
  assumes "map strip (habits db') = map strip (habits db)"
  shows "map strip (get_user_habits u db') = map strip (get_user_habits u db)"
proof -
  have "map strip (filter (\<lambda>h. h_user_id h = u \<and> is_active h = 1) xs) =
        filter (\<lambda>h. h_user_id h = u \<and> is_active h = 1) (map strip xs)" for xs
    by (simp add: filter_map comp_def strip_def)
  then show ?thesis using assms by (simp add: get_user_habits_def)
qed

lemma user_habits_known: "\<forall>h\<in>set (get_user_habits u db). get_habit (h_id h) db \<noteq> None"
  by (auto simp: get_user_habits_def get_habit_None_iff)

lemma end_of_day_users_points:
  assumes A: "\<And>u db0 dbc. habit_logs dbc = habit_logs db0 \<Longrightarrow> lookup u db0 dbc = lookup u db0 db0"
    and B: "\<And>u db db'. habit_logs db' = habit_logs db \<Longrightarrow>
              map strip (habits db') = map strip (habits db) \<Longrightarrow>
              lookup u db' db' = lookup u db db"
  shows "marathon_participants (fst (end_of_day_users lookup us db)) =
           add_points (\<lambda>p. sum_list (map (\<lambda>u. credits (lookup u db db) u (get_user_habits u db) p) us))
             (marathon_participants db) \<and>
         habit_logs (fst (end_of_day_users lookup us db)) = habit_logs db \<and>
         users (fst (end_of_day_users lookup us db)) = users db \<and>
         map strip (habits (fst (end_of_day_users lookup us db))) = map strip (habits db)"
proof (induction us arbitrary: db)
  case Nil
  show ?case by simp
next
  case (Cons u us)
  let ?hs = "get_user_habits u db"
  have stable: "lookup u db dbc = lookup u db db" if "habit_logs dbc = habit_logs db" for dbc
    using that by (rule A)
  from settle_habits_points [of db "lookup u db" ?hs u, OF stable user_habits_known]
  obtain db1 ls ups where
    run: "settle_habits (lookup u db) u ?hs db = (db1, Inr (ls, ups))" and
    p1: "marathon_participants db1 =
           add_points (credits (lookup u db db) u ?hs) (marathon_participants db)" and
    l1: "habit_logs db1 = habit_logs db" and u1: "users db1 = users db" and
    s1: "map strip (habits db1) = map strip (habits db)"
    by blast
  have same: "credits (lookup v db1 db1) v (get_user_habits v db1) p =
              credits (lookup v db db) v (get_user_habits v db) p" for v p
    using B [OF l1 s1, of v] credits_strip [OF user_habits_strip [OF s1]] by simp
  show ?case
  proof (cases "?hs = []")
    case True
    have "credits (lookup u db db) u ?hs = (\<lambda>p. 0)" using True by (simp add: credits_Nil)
    then show ?thesis using True Cons.IH [of db] by (simp add: Let_def)
  next
    case False
    have fin: "fst (end_of_day_users lookup (u # us) db) = fst (end_of_day_users lookup us db1)"
      using False run by (simp add: Let_def split: prod.splits)
    have twice: "add_points (\<lambda>p. sum_list (map (\<lambda>v. credits (lookup v db db) v (get_user_habits v db) p) us))
            (add_points (credits (lookup u db db) u ?hs) (marathon_participants db)) =
          add_points (\<lambda>p. credits (lookup u db db) u ?hs p +
                          sum_list (map (\<lambda>v. credits (lookup v db db) v (get_user_habits v db) p) us))
            (marathon_participants db)"
      by (rule add_points_twice) simp
    have fn: "(\<lambda>p. sum_list (map (\<lambda>v. credits (lookup v db1 db1) v (get_user_habits v db1) p) us)) =
              (\<lambda>p. sum_list (map (\<lambda>v. credits (lookup v db db) v (get_user_habits v db) p) us))"
      by (simp only: same)
    note ih = Cons.IH [of db1]
    have "marathon_participants (fst (end_of_day_users lookup us db1)) =
          add_points (\<lambda>p. sum_list (map (\<lambda>v. credits (lookup v db db) v (get_user_habits v db) p) us))
            (add_points (credits (lookup u db db) u ?hs) (marathon_participants db))"
      using ih [THEN conjunct1] unfolding fn p1 .
    then have a: "marathon_participants (fst (end_of_day_users lookup us db1)) =
          add_points (\<lambda>p. sum_list (map (\<lambda>v. credits (lookup v db db) v (get_user_habits v db) p) (u # us)))
            (marathon_participants db)"
      unfolding twice by simp
    have b: "habit_logs (fst (end_of_day_users lookup us db1)) = habit_logs db"
      using ih [THEN conjunct2, THEN conjunct1] l1 by simp
    have c: "users (fst (end_of_day_users lookup us db1)) = users db"
      using ih [THEN conjunct2, THEN conjunct2, THEN conjunct1] u1 by simp
    have d: "map strip (habits (fst (end_of_day_users lookup us db1))) = map strip (habits db)"
      using ih [THEN conjunct2, THEN conjunct2, THEN conjunct2] s1 by simp
    show ?thesis unfolding fin using a b c d by blast
  qed
qed

lemma sum_one_user:
  assumes "distinct us"
  shows "sum_list (map (\<lambda>u. credits (lk u) u (hs u) p) us) =
           (if mp_user_id p \<in> set us then credits (lk (mp_user_id p)) (mp_user_id p) (hs (mp_user_id p)) p
            else 0)"
  using assms by (induction us) (auto simp: credits_def)

lemma credits_day:
  "mp_user_id p \<in> set (users db) \<Longrightarrow>
   credits (\<lambda>hid. get_daily_log hid today db) (mp_user_id p) (get_user_habits (mp_user_id p) db) p =
     day_credits today db p"
  by (simp add: credits_def day_credits_def credited_def [abs_def] day_value_def)

lemma credits_batch:
  assumes "distinct (log_keys db)"
  shows "credits (get_daily_logs_batch (map h_id hs) today db) u hs p =
         credits (\<lambda>hid. get_daily_log hid today db) u hs p"
proof -
  have "credited (get_daily_logs_batch (map h_id hs) today db) m h =
        credited (\<lambda>hid. get_daily_log hid today db) m h" if "h \<in> set hs" for m h
    using batch_lookup [OF assms, of "h_id h" "map h_id hs" today] that
    by (simp add: credited_def)
  then have "filter (credited (get_daily_logs_batch (map h_id hs) today db) m) hs =
             filter (credited (\<lambda>hid. get_daily_log hid today db) m) hs" for m
    by (intro filter_cong) auto
  then show ?thesis by (simp add: credits_def)
qed

lemma sum_day_credits:
  assumes "distinct (users db)"
  shows "sum_list (map (\<lambda>u. credits (\<lambda>hid. get_daily_log hid today db) u (get_user_habits u db) p) (users db)) =
              day_credits today db p"
proof (cases "mp_user_id p \<in> set (users db)")
  case True
  then show ?thesis
    using sum_one_user [OF assms, of "\<lambda>u hid. get_daily_log hid today db"
        "\<lambda>u. get_user_habits u db" p] credits_day [OF True, of today]
    by simp
next
  case False
  then show ?thesis
    using sum_one_user [OF assms, of "\<lambda>u hid. get_daily_log hid today db"
        "\<lambda>u. get_user_habits u db" p]
    by (simp add: day_credits_def)
qed

lemma end_of_day_points:
  "marathon_participants (fst (end_of_day_users (\<lambda>user_id db0 db hid. get_daily_log hid today db) us db)) =
           add_points (\<lambda>p. sum_list (map (\<lambda>u. credits (\<lambda>hid. get_daily_log hid today db) u (get_user_habits u db) p) us))
             (marathon_participants db) \<and>
         habit_logs (fst (end_of_day_users (\<lambda>user_id db0 db hid. get_daily_log hid today db) us db)) = habit_logs db"
proof -
  have LA: "(\<lambda>hid. get_daily_log hid today dbc) = (\<lambda>hid. get_daily_log hid today db0)"
    if "habit_logs dbc = habit_logs db0" for db0 dbc
    using that by (simp add: get_daily_log_def)
  have LB: "(\<lambda>hid. get_daily_log hid today db') = (\<lambda>hid. get_daily_log hid today db)"
    if "habit_logs db' = habit_logs db" "map strip (habits db') = map strip (habits db)"
    for db db'
    using that by (simp add: get_daily_log_def)
  from end_of_day_users_points [of "\<lambda>user_id db0 db hid. get_daily_log hid today db" us db]
    LA LB
  show ?thesis by blast
qed

lemma end_of_day_ht_points:
  "marathon_participants
     (fst (end_of_day_users
        (\<lambda>user_id db0 db. get_daily_logs_batch (map h_id (get_user_habits user_id db0)) today db0)
        us db)) =
   add_points (\<lambda>p. sum_list (map (\<lambda>u. credits
        (get_daily_logs_batch (map h_id (get_user_habits u db)) today db) u (get_user_habits u db) p) us))
     (marathon_participants db) \<and>
   habit_logs
     (fst (end_of_day_users
        (\<lambda>user_id db0 db. get_daily_logs_batch (map h_id (get_user_habits user_id db0)) today db0)
        us db)) = habit_logs db"
proof -
  have BB: "get_daily_logs_batch (map h_id (get_user_habits u db')) today db' =
            get_daily_logs_batch (map h_id (get_user_habits u db)) today db"
    if "habit_logs db' = habit_logs db" "map strip (habits db') = map strip (habits db)"
    for u db db'
    using that(1) strip_ids [OF user_habits_strip [OF that(2), of u]]
    by (simp add: get_daily_logs_batch_def)
  from end_of_day_users_points
    [of "\<lambda>user_id db0 db. get_daily_logs_batch (map h_id (get_user_habits user_id db0)) today db0"
        us db] BB
  show ?thesis by blast
qed

text \<open>
  C1 (amended). With a bot attached and no user id twice in the users table, one
  end-of-day run adds to every participant row exactly one point for each active habit
  of that user that is linked to the row's marathon and whose value on record for the
  day is at least its goal, and nothing else (for the batch-reading scheduler: if the
  log table has at most one row per habit and day). A run does not touch the log table.
  Without a bot nothing is settled. Nothing in the store records that a day was settled.
\<close>

theorem settlement_credits_once_per_run:
  assumes "distinct (users db)"
  shows "marathon_participants (fst (process_end_of_day True today db)) =
           add_points (day_credits today db) (marathon_participants db) \<and>
         (distinct (log_keys db) \<longrightarrow>
            marathon_participants (fst (process_end_of_day_ht True today db)) =
              add_points (day_credits today db) (marathon_participants db)) \<and>
         habit_logs (fst (process_end_of_day True today db)) = habit_logs db \<and>
         habit_logs (fst (process_end_of_day_ht True today db)) = habit_logs db \<and>
         process_end_of_day False today db = (db, []) \<and>
         process_end_of_day_ht False today db = (db, [])"
proof -
  have fn: "(\<lambda>p. sum_list (map (\<lambda>u. credits (\<lambda>hid. get_daily_log hid today db) u
                (get_user_habits u db) p) (users db))) = day_credits today db"
    using sum_day_credits [OF assms] by (simp add: fun_eq_iff)
  have 1: "marathon_participants (fst (process_end_of_day True today db)) =
           add_points (day_credits today db) (marathon_participants db)"
    using end_of_day_points [of today "users db" db, THEN conjunct1]
    unfolding fn process_end_of_day_def by simp
  have 3: "habit_logs (fst (process_end_of_day True today db)) = habit_logs db"
    using end_of_day_points [of today "users db" db, THEN conjunct2]
    unfolding process_end_of_day_def by simp
  have 4: "habit_logs (fst (process_end_of_day_ht True today db)) = habit_logs db"
    using end_of_day_ht_points [of today "users db" db, THEN conjunct2]
    unfolding process_end_of_day_ht_def by simp
  have 2: "marathon_participants (fst (process_end_of_day_ht True today db)) =
              add_points (day_credits today db) (marathon_participants db)"
    if k: "distinct (log_keys db)"
  proof -
    have "(\<lambda>p. sum_list (map (\<lambda>u. credits
        (get_daily_logs_batch (map h_id (get_user_habits u db)) today db) u (get_user_habits u db) p)
        (users db))) = day_credits today db"
      unfolding credits_batch [OF k] by (rule fn)
    then show ?thesis
      using end_of_day_ht_points [of today "users db" db, THEN conjunct1]
      unfolding process_end_of_day_ht_def by simp
  qed
  have 5: "process_end_of_day False today db = (db, [])"
    "process_end_of_day_ht False today db = (db, [])"
    by (simp_all add: process_end_of_day_def process_end_of_day_ht_def)
  from 1 2 3 4 5 show ?thesis by blast
qed

theorem settlement_credits_once_per_run_witness:
  "distinct (users db_five) \<and> distinct (log_keys db_five) \<and>
   map total_points (marathon_participants db_five) = [0] \<and>
   map total_points (marathon_participants (fst (process_end_of_day True 10 db_five))) = [1] \<and>
   map total_points (marathon_participants (fst (process_end_of_day_ht True 10 db_five))) = [1]"
proof -
  have u: "distinct (users db_five)" by (simp add: db_five_def demo_db_def)
  have k: "distinct (log_keys db_five)" by (simp add: log_keys_def db_five_def)
  have c: "map total_points (add_points (day_credits 10 db_five) (marathon_participants db_five)) = [1]"
    by (simp add: add_points_def day_credits_def day_value_def get_daily_log_def
        get_user_habits_def db_five_def demo_db_def run_habit_def read_habit_def)
  have z: "map total_points (marathon_participants db_five) = [0]"
    by (simp add: db_five_def demo_db_def)
  from settlement_credits_once_per_run [OF u, of 10] u k c z show ?thesis by simp
qed

text \<open>
  C1 as stated fails: with habit 1 (marathon 2, goal 3) at value 5 on day 10, a first run
  credits participant (2, 7) one point and leaves the logs as they are; a second run for
  the same day credits a second point, in both schedulers.
\<close>

theorem second_settlement_counterexample:
  "map total_points (marathon_participants (fst (process_end_of_day True 10 db_five))) = [1] \<and>
   habit_logs (fst (process_end_of_day True 10 db_five)) = habit_logs db_five \<and>
   map total_points (marathon_participants
      (fst (process_end_of_day True 10 (fst (process_end_of_day True 10 db_five))))) = [2] \<and>
   map total_points (marathon_participants
      (fst (process_end_of_day_ht True 10 (fst (process_end_of_day_ht True 10 db_five))))) = [2]"
  by (simp add: process_end_of_day_def process_end_of_day_ht_def settle_habit_def
      update_streak_def update_marathon_points_def get_user_habits_def get_daily_log_def
      get_daily_logs_batch_def db_five_def demo_db_def run_habit_def read_habit_def Let_def)

section \<open>Settlement reads\<close>










lemma double_3: "binary64 3 = 3"
  using binary64_int [of 3] by simp




end
